theory Spec2Isabelle
  imports Complex_Main "HOL-Library.Word"
begin

unbundle bit_operations_syntax

section \<open>Values of the language\<close>

subsection \<open>Numbers\<close>

text \<open>
  A JavaScript \<open>number\<close> is an IEEE 754 binary64 value, and every 64-bit pattern is
  one: bit 63 is the sign, bits 62..52 the biased exponent, bits 51..0 the fraction. The
  63 low bits, read as an integer, order the magnitudes; \<open>2047 * 2 ^ 52\<close> is infinity and
  everything above it is a NaN. Strings are kept as their UTF-8 bytes.
\<close>

type_synonym number = "64 word"

definition sign_bit :: "number \<Rightarrow> bool" where
  "sign_bit x = bit x 63"

definition magnitude_bits :: "number \<Rightarrow> int" where
  "magnitude_bits x = uint (take_bit 63 x)"

definition biased_exponent :: "number \<Rightarrow> int" where
  "biased_exponent x = magnitude_bits x div 2 ^ 52"

definition fraction :: "number \<Rightarrow> int" where
  "fraction x = magnitude_bits x mod 2 ^ 52"

definition infinity_bits :: int where
  "infinity_bits = 2047 * 2 ^ 52"

definition isNaN :: "number \<Rightarrow> bool" where
  "isNaN x = (infinity_bits < magnitude_bits x)"

definition isFinite :: "number \<Rightarrow> bool" where
  "isFinite x = (magnitude_bits x < infinity_bits)"

text \<open>
  The magnitude of a finite number: \<open>f * 2^-1074\<close> when the exponent field is 0
  (zero and the subnormals), \<open>(2^52 + f) * 2^(e - 1075)\<close> otherwise. \<open>real_value\<close> gives it
  its sign; both zeros have the value 0. Neither is meant for NaN or the infinities.
\<close>

definition magnitude :: "number \<Rightarrow> rat" where
  "magnitude x =
     (if biased_exponent x = 0 then of_int (fraction x) * 2 powi (- 1074)
      else of_int (2 ^ 52 + fraction x) * 2 powi (biased_exponent x - 1075))"

definition real_value :: "number \<Rightarrow> rat" where
  "real_value x = (if sign_bit x then - magnitude x else magnitude x)"

text \<open>The number with the given sign bit and the given 63 low bits.\<close>

definition make_number :: "bool \<Rightarrow> int \<Rightarrow> number" where
  "make_number negative bits =
     (if negative then push_bit 63 1 else 0) OR take_bit 63 (word_of_int bits)"

text \<open>
  Every literal and every arithmetic operation rounds its exact result to the nearest
  binary64 value, ties to the even significand. For a positive rational \<open>q\<close> the quantum
  is \<open>2^E\<close> with \<open>E = max (\<lfloor>log\<^sub>2 q\<rfloor> - 52) (-1074)\<close>, and the significand is the integer
  nearest to \<open>q / 2^E\<close>. The bits of the result are \<open>(E + 1074) * 2^52 + m\<close>: a
  significand of \<open>2^53\<close> carries into the next exponent, and a result that reaches
  the bits of infinity is infinity.
\<close>

function ilog :: "int \<Rightarrow> int \<Rightarrow> int" where
  "ilog b n = (if b < 2 \<or> n < b then 0 else 1 + ilog b (n div b))"
  by pat_completeness auto
termination
proof (relation "measure (\<lambda>(b, n). nat n)")
  show "wf (measure (\<lambda>(b, n). nat n))"
    by simp
next
  fix b n :: int
  assume "\<not> (b < 2 \<or> n < b)"
  then have "2 \<le> b" and "b \<le> n"
    by simp_all
  then have "n div b < n"
    by (simp add: int_div_less_self)
  moreover from \<open>2 \<le> b\<close> \<open>b \<le> n\<close> have "0 < n"
    by simp
  ultimately show "((b, n div b), (b, n)) \<in> measure (\<lambda>(b, n). nat n)"
    by simp
qed

definition floor_log :: "int \<Rightarrow> rat \<Rightarrow> int" where
  "floor_log b q =
     (let (n, d) = quotient_of q;
          t = ilog b n - ilog b d
      in if of_int b powi t \<le> q then t else t - 1)"

definition round_half_even :: "rat \<Rightarrow> int" where
  "round_half_even r =
     (let n = \<lfloor>r\<rfloor>; f = r - of_int n
      in if f < 1 / 2 then n else if 1 / 2 < f then n + 1 else if even n then n else n + 1)"

definition round_magnitude :: "rat \<Rightarrow> int" where
  "round_magnitude q =
     (if q \<le> 0 then 0
      else let E = max (floor_log 2 q - 52) (- 1074);
               m = round_half_even (q / 2 powi E)
           in min ((E + 1074) * 2 ^ 52 + m) infinity_bits)"

text \<open>
  The Number value of a mathematical value; a numeric literal denotes the Number value
  of its decimal.
\<close>

definition number_of :: "rat \<Rightarrow> number" where
  "number_of q = make_number (q < 0) (round_magnitude \<bar>q\<bar>)"


text \<open>
  Comparison (\<open>>=\<close>, false when either side is NaN; the two zeros are equal) and
  multiplication (\<open>*\<close>).
\<close>

definition NaN :: number where
  "NaN = make_number False (infinity_bits + 2 ^ 51)"

definition order_key :: "number \<Rightarrow> int" where
  "order_key x = (if sign_bit x then - magnitude_bits x else magnitude_bits x)"

definition ge :: "number \<Rightarrow> number \<Rightarrow> bool" where
  "ge x y = (\<not> isNaN x \<and> \<not> isNaN y \<and> order_key y \<le> order_key x)"

definition mul :: "number \<Rightarrow> number \<Rightarrow> number" where
  "mul x y =
     (if isNaN x \<or> isNaN y then NaN
      else if \<not> isFinite x \<or> \<not> isFinite y then
        (if magnitude_bits x = 0 \<or> magnitude_bits y = 0 then NaN
         else make_number (sign_bit x \<noteq> sign_bit y) infinity_bits)
      else make_number (sign_bit x \<noteq> sign_bit y) (round_magnitude (magnitude x * magnitude y)))"

text \<open>The decimal digits of a non-negative integer.\<close>

definition digit :: "int \<Rightarrow> char" where
  "digit d = char_of (48 + d)"

function digits :: "int \<Rightarrow> string" where
  "digits n = (if n < 10 then [digit n] else digits (n div 10) @ [digit (n mod 10)])"
  by pat_completeness auto
termination
  by (relation "measure nat") auto

text \<open>
  \<open>Number::toString\<close> writes the shortest decimal \<open>s * 10^(n - k)\<close>, \<open>s\<close> of \<open>k\<close> digits,
  that reads back as the number. With \<open>k\<close> digits only the two decimals around the value
  can do so; when both do, the closer one is taken. Seventeen digits always suffice.
\<close>

definition candidate :: "rat \<Rightarrow> int \<Rightarrow> int \<Rightarrow> (int \<times> int) option" where
  "candidate v bits k =
     (let d = floor_log 10 v + 1;
          scale = 10 powi (d - k);
          lo = \<lfloor>v / scale\<rfloor>;
          hi = lo + 1;
          below = v - of_int lo * scale;
          above = of_int hi * scale - v;
          ok_lo = (round_magnitude (of_int lo * scale) = bits);
          ok_hi = (round_magnitude (of_int hi * scale) = bits)
      in if ok_hi \<and> (\<not> ok_lo \<or> above < below \<or> (above = below \<and> even hi))
         then (if hi = 10 ^ nat k then Some (10 ^ nat (k - 1), d + 1) else Some (hi, d))
         else if ok_lo then Some (lo, d)
         else None)"

fun shortest_from :: "nat \<Rightarrow> int \<Rightarrow> rat \<Rightarrow> int \<Rightarrow> int \<times> int \<times> int" where
  "shortest_from 0 k v bits =
     (case candidate v bits k of
        Some (s, n) \<Rightarrow> (s, n, k)
      | None \<Rightarrow> (\<lfloor>v / 10 powi (floor_log 10 v + 1 - k)\<rfloor>, floor_log 10 v + 1, k))"
| "shortest_from (Suc fuel) k v bits =
     (case candidate v bits k of
        Some (s, n) \<Rightarrow> (s, n, k)
      | None \<Rightarrow> shortest_from fuel (k + 1) v bits)"

definition shortest_digits :: "number \<Rightarrow> int \<times> int \<times> int" where
  "shortest_digits x = shortest_from 16 1 (magnitude x) (magnitude_bits x)"

text \<open>\<open>Number::toString\<close> in radix 10, also what a template literal does to a number.\<close>

definition Number_toString :: "number \<Rightarrow> string" where
  "Number_toString x =
     (if isNaN x then ''NaN''
      else if magnitude_bits x = 0 then ''0''
      else (if sign_bit x then ''-'' else '''') @
        (if \<not> isFinite x then ''Infinity''
         else let (s, n, k) = shortest_digits x; ds = digits s
           in if k \<le> n \<and> n \<le> 21 then ds @ replicate (nat (n - k)) CHR ''0''
              else if 0 < n \<and> n \<le> 21 then take (nat n) ds @ ''.'' @ drop (nat n) ds
              else if - 6 < n \<and> n \<le> 0 then ''0.'' @ replicate (nat (- n)) CHR ''0'' @ ds
              else let e = n - 1; es = (if e < 0 then ''-'' else ''+'') @ digits \<bar>e\<bar>
                in if k = 1 then ds @ ''e'' @ es
                   else take 1 ds @ ''.'' @ drop 1 ds @ ''e'' @ es))"

text \<open>
  \<open>Number.prototype.toFixed\<close>. Its range check of the digit count (0 to 100) is left
  out: the module passes 2.
\<close>

definition toFixed :: "number \<Rightarrow> nat \<Rightarrow> string" where
  "toFixed x f =
     (if \<not> isFinite x then Number_toString x
      else let v = real_value x; s = (if v < 0 then ''-'' else ''''); a = \<bar>v\<bar>
        in if 10 ^ 21 \<le> a then s @ Number_toString (make_number False (magnitude_bits x))
           else let n = \<lfloor>a * 10 ^ f + 1 / 2\<rfloor>;
                    m = (if n = 0 then ''0'' else digits n)
             in if f \<noteq> 0
                then let k = length m;
                         m = (if k \<le> f then replicate (f + 1 - k) CHR ''0'' @ m else m);
                         k = (if k \<le> f then f + 1 else k)
                  in s @ take (k - f) m @ ''.'' @ drop (k - f) m
                else s @ m)"

text \<open>\<open>Math.round\<close>: the nearest integer, a tie going up; \<open>-0\<close> for \<open>-0.5 \<le> x < 0\<close>.\<close>

definition Math_round :: "number \<Rightarrow> number" where
  "Math_round x =
     (if \<not> isFinite x \<or> magnitude_bits x = 0 then x
      else let n = \<lfloor>real_value x + 1 / 2\<rfloor>
        in if n = 0 then make_number (sign_bit x) 0 else number_of (of_int n))"

text \<open>
  \<open>Intl.NumberFormat\<close> for \<open>ko-KR\<close> with default options, as ICU formats a double: the
  digits are those of the integer itself when the value is an integer below \<open>2^53\<close>, and
  those of the shortest decimal that reads back as the number otherwise; at most three
  fraction digits, rounded half away from zero, without trailing zeros; the integer
  digits in groups of three, separated by commas; a minus sign for every number with the
  sign bit set, negative zero included; \<open>NaN\<close> for NaN, and the infinity sign (UTF-8
  bytes E2 88 9E) for the infinities.
\<close>

function group_thousands :: "string \<Rightarrow> string" where
  "group_thousands ds =
     (if length ds \<le> 3 then ds
      else group_thousands (take (length ds - 3) ds) @ '','' @ drop (length ds - 3) ds)"
  by pat_completeness auto
termination
  by (relation "measure length") auto

definition strip_zeros :: "string \<Rightarrow> string" where
  "strip_zeros ds = rev (dropWhile (\<lambda>c. c = CHR ''0'') (rev ds))"

definition NumberFormat_format :: "number \<Rightarrow> string" where
  "NumberFormat_format x =
     (if isNaN x then ''NaN''
      else (if sign_bit x then ''-'' else '''') @
        (if \<not> isFinite x then [CHR 0xE2, CHR 0x88, CHR 0x9E]
         else let D = (if magnitude x = of_int \<lfloor>magnitude x\<rfloor> \<and> magnitude x < 2 ^ 53
                       then magnitude x
                       else let (s, n, k) = shortest_digits x in of_int s * 10 powi (n - k));
                  t = \<lfloor>D * 1000 + 1 / 2\<rfloor>;
                  fr = digits (t mod 1000)
           in group_thousands (digits (t div 1000)) @
              (if t mod 1000 = 0 then ''''
               else ''.'' @ strip_zeros (replicate (3 - length fr) CHR ''0'' @ fr))))"

subsection \<open>Arrays of strings\<close>

text \<open>
  \<open>Array.prototype.join\<close>: the result starts empty; element \<open>k\<close> is appended after the
  separator when \<open>k > 0\<close>.
\<close>

fun join_from :: "nat \<Rightarrow> string \<Rightarrow> string list \<Rightarrow> string \<Rightarrow> string" where
  "join_from k R [] sep = R"
| "join_from k R (element # rest) sep =
     join_from (Suc k) ((if 0 < k then R @ sep else R) @ element) rest sep"

definition join :: "string list \<Rightarrow> string \<Rightarrow> string" where
  "join xs sep = join_from 0 '''' xs sep"

text \<open>
  The comma-separated list of the spec: the elements in order, a comma between each two
  neighbours.
\<close>

fun comma_separated :: "string list \<Rightarrow> string" where
  "comma_separated [] = ''''"
| "comma_separated [x] = x"
| "comma_separated (x # y # ys) = x @ '','' @ comma_separated (y # ys)"

section \<open>Configuration\<close>

text \<open>
  The module reads its configuration from \<open>import.meta.env\<close> once. A variable that is
  not set is \<open>None\<close>; \<open>!v\<close> holds for a variable that is not set or is the empty string.
\<close>

record env =
  VITE_UPBIT_API_URL :: "string option"
  VITE_UPBIT_ACCESS_KEY :: "string option"
  VITE_UPBIT_SECRET_KEY :: "string option"
  DEV :: bool

definition falsy :: "string option \<Rightarrow> bool" where
  "falsy v = (case v of None \<Rightarrow> True | Some s \<Rightarrow> s = [])"

definition string_of :: "string option \<Rightarrow> string" where
  "string_of v = (case v of None \<Rightarrow> [] | Some s \<Rightarrow> s)"

definition API_BASE_URL :: "env \<Rightarrow> string" where
  "API_BASE_URL e =
     (if falsy (VITE_UPBIT_API_URL e) then ''https://api.upbit.com''
      else string_of (VITE_UPBIT_API_URL e))"

definition ACCESS_KEY :: "env \<Rightarrow> string option" where
  "ACCESS_KEY e = VITE_UPBIT_ACCESS_KEY e"

definition SECRET_KEY :: "env \<Rightarrow> string option" where
  "SECRET_KEY e = VITE_UPBIT_SECRET_KEY e"

definition USE_PROXY :: "env \<Rightarrow> bool" where
  "USE_PROXY e = DEV e"

definition PROXY_BASE_URL :: string where
  "PROXY_BASE_URL = ''/api/upbit''"

section \<open>The collaborators: HTTP transport, nonce generator, token signer\<close>

text \<open>
  A thrown value is an \<open>Error\<close> built by this module, with its message, or whatever a
  collaborator throws.
\<close>

datatype 'x thrown = Error string | Foreign 'x

datatype param = PString string | PNumber number | PUndefined

record request =
  baseURL :: "string option"
  url :: string
  params :: "(string \<times> param) list"
  headers :: "(string \<times> string) list"

record claims =
  access_key :: string
  nonce :: string

text \<open>
  The world outside the module: the transport decides the outcome of a GET from the
  requests sent before it and the request itself, and every request is logged;
  \<open>uuidv4\<close> hands out the values \<open>uuids 0\<close>, \<open>uuids 1\<close>, ... one per call; the signer maps
  the protected header's algorithm, the claims and the secret to a token or throws, and
  every claim set handed to it is logged.
\<close>

record ('x, 'd) world =
  transport :: "request list \<Rightarrow> request \<Rightarrow> 'x thrown + 'd"
  requests :: "request list"
  uuids :: "nat \<Rightarrow> string"
  uuid_calls :: nat
  sign :: "string \<Rightarrow> claims \<Rightarrow> string \<Rightarrow> 'x thrown + string"
  signed_claims :: "claims list"

definition axios_get :: "request \<Rightarrow> ('x, 'd) world \<Rightarrow> ('x thrown + 'd) \<times> ('x, 'd) world" where
  "axios_get req w = (transport w (requests w) req, w\<lparr>requests := requests w @ [req]\<rparr>)"

definition uuidv4 :: "('x, 'd) world \<Rightarrow> string \<times> ('x, 'd) world" where
  "uuidv4 w = (uuids w (uuid_calls w), w\<lparr>uuid_calls := Suc (uuid_calls w)\<rparr>)"

definition SignJWT_sign ::
  "string \<Rightarrow> claims \<Rightarrow> string \<Rightarrow> ('x, 'd) world \<Rightarrow> ('x thrown + string) \<times> ('x, 'd) world" where
  "SignJWT_sign alg payload secret w =
     (sign w alg payload secret, w\<lparr>signed_claims := signed_claims w @ [payload]\<rparr>)"

section \<open>The exchange client\<close>

text \<open>
  \<open>publicClient\<close> is an axios instance with a base URL and an \<open>Accept\<close> header; a GET
  through it sends both with the path and the query parameters.
\<close>

definition publicClient_request :: "env \<Rightarrow> string \<Rightarrow> (string \<times> param) list \<Rightarrow> request" where
  "publicClient_request e path ps =
     \<lparr>baseURL = Some (if USE_PROXY e then PROXY_BASE_URL else API_BASE_URL e),
      url = path,
      params = ps,
      headers = [(''Accept'', ''application/json'')]\<rparr>"

definition publicClient_get ::
  "env \<Rightarrow> string \<Rightarrow> (string \<times> param) list \<Rightarrow> ('x, 'd) world
     \<Rightarrow> ('x thrown + 'd) \<times> ('x, 'd) world" where
  "publicClient_get e path ps w = axios_get (publicClient_request e path ps) w"

text \<open>
  The first message says that the API key is not set and asks to check the \<open>.env\<close> file;
  the second says that the account information could not be loaded and asks to check the
  API key. Both are Korean text, given here by their UTF-8 bytes.
\<close>

definition keys_not_set_message :: string where
  "keys_not_set_message =
     [CHR 0x41, CHR 0x50, CHR 0x49, CHR 0x20, CHR 0xED, CHR 0x82, CHR 0xA4, CHR 0xEA,
      CHR 0xB0, CHR 0x80, CHR 0x20, CHR 0xEC, CHR 0x84, CHR 0xA4, CHR 0xEC, CHR 0xA0,
      CHR 0x95, CHR 0xEB, CHR 0x90, CHR 0x98, CHR 0xEC, CHR 0xA7, CHR 0x80, CHR 0x20,
      CHR 0xEC, CHR 0x95, CHR 0x8A, CHR 0xEC, CHR 0x95, CHR 0x98, CHR 0xEC, CHR 0x8A,
      CHR 0xB5, CHR 0xEB, CHR 0x8B, CHR 0x88, CHR 0xEB, CHR 0x8B, CHR 0xA4, CHR 0x2E,
      CHR 0x20, CHR 0x2E, CHR 0x65, CHR 0x6E, CHR 0x76, CHR 0x20, CHR 0xED, CHR 0x8C,
      CHR 0x8C, CHR 0xEC, CHR 0x9D, CHR 0xBC, CHR 0xEC, CHR 0x9D, CHR 0x84, CHR 0x20,
      CHR 0xED, CHR 0x99, CHR 0x95, CHR 0xEC, CHR 0x9D, CHR 0xB8, CHR 0xED, CHR 0x95,
      CHR 0xB4, CHR 0xEC, CHR 0xA3, CHR 0xBC, CHR 0xEC, CHR 0x84, CHR 0xB8, CHR 0xEC,
      CHR 0x9A, CHR 0x94, CHR 0x2E]"

definition accounts_failed_message :: string where
  "accounts_failed_message =
     [CHR 0xEA, CHR 0xB3, CHR 0x84, CHR 0xEC, CHR 0xA0, CHR 0x95, CHR 0x20, CHR 0xEC,
      CHR 0xA0, CHR 0x95, CHR 0xEB, CHR 0xB3, CHR 0xB4, CHR 0xEB, CHR 0xA5, CHR 0xBC,
      CHR 0x20, CHR 0xEB, CHR 0xB6, CHR 0x88, CHR 0xEB, CHR 0x9F, CHR 0xAC, CHR 0xEC,
      CHR 0x98, CHR 0xA4, CHR 0xEB, CHR 0x8A, CHR 0x94, CHR 0xEB, CHR 0x8D, CHR 0xB0,
      CHR 0x20, CHR 0xEC, CHR 0x8B, CHR 0xA4, CHR 0xED, CHR 0x8C, CHR 0xA8, CHR 0xED,
      CHR 0x96, CHR 0x88, CHR 0xEC, CHR 0x8A, CHR 0xB5, CHR 0xEB, CHR 0x8B, CHR 0x88,
      CHR 0xEB, CHR 0x8B, CHR 0xA4, CHR 0x2E, CHR 0x20, CHR 0x41, CHR 0x50, CHR 0x49,
      CHR 0x20, CHR 0xED, CHR 0x82, CHR 0xA4, CHR 0xEB, CHR 0xA5, CHR 0xBC, CHR 0x20,
      CHR 0xED, CHR 0x99, CHR 0x95, CHR 0xEC, CHR 0x9D, CHR 0xB8, CHR 0xED, CHR 0x95,
      CHR 0xB4, CHR 0xEC, CHR 0xA3, CHR 0xBC, CHR 0xEC, CHR 0x84, CHR 0xB8, CHR 0xEC,
      CHR 0x9A, CHR 0x94, CHR 0x2E]"

definition generateJWT ::
  "env \<Rightarrow> claims \<Rightarrow> ('x, 'd) world \<Rightarrow> ('x thrown + string) \<times> ('x, 'd) world" where
  "generateJWT e payload w =
     (if falsy (SECRET_KEY e) then (Inl (Error ''UPBIT_SECRET_KEY is not configured''), w)
      else SignJWT_sign ''HS256'' payload (string_of (SECRET_KEY e)) w)"

definition getAuthHeaders ::
  "env \<Rightarrow> ('x, 'd) world \<Rightarrow> ('x thrown + (string \<times> string) list) \<times> ('x, 'd) world" where
  "getAuthHeaders e w =
     (if falsy (ACCESS_KEY e) \<or> falsy (SECRET_KEY e) then (Inl (Error keys_not_set_message), w)
      else
        let (n, w1) = uuidv4 w;
            payload = \<lparr>access_key = string_of (ACCESS_KEY e), nonce = n\<rparr>
        in case generateJWT e payload w1 of
             (Inl error, w2) \<Rightarrow> (Inl error, w2)
           | (Inr token, w2) \<Rightarrow>
               (Inr [(''Authorization'', ''Bearer '' @ token), (''Accept'', ''application/json'')],
                w2))"

definition getMarkets :: "env \<Rightarrow> ('x, 'd) world \<Rightarrow> ('x thrown + 'd) \<times> ('x, 'd) world" where
  "getMarkets e w = publicClient_get e ''/v1/market/all'' [] w"

definition getMinuteCandles ::
  "env \<Rightarrow> string \<Rightarrow> number option \<Rightarrow> number option \<Rightarrow> ('x, 'd) world
     \<Rightarrow> ('x thrown + 'd) \<times> ('x, 'd) world" where
  "getMinuteCandles e market unit_arg count_arg w =
     (let unit = (case unit_arg of None \<Rightarrow> number_of 1 | Some u \<Rightarrow> u);
          count = (case count_arg of None \<Rightarrow> number_of 200 | Some c \<Rightarrow> c)
      in publicClient_get e (''/v1/candles/minutes/'' @ Number_toString unit)
           [(''market'', PString market), (''count'', PNumber count)] w)"

definition getDayCandles ::
  "env \<Rightarrow> string \<Rightarrow> number option \<Rightarrow> string option \<Rightarrow> ('x, 'd) world
     \<Rightarrow> ('x thrown + 'd) \<times> ('x, 'd) world" where
  "getDayCandles e market count_arg convertingPriceUnit w =
     (let count = (case count_arg of None \<Rightarrow> number_of 200 | Some c \<Rightarrow> c)
      in publicClient_get e ''/v1/candles/days''
           [(''market'', PString market), (''count'', PNumber count),
            (''convertingPriceUnit'',
             case convertingPriceUnit of None \<Rightarrow> PUndefined | Some u \<Rightarrow> PString u)] w)"

definition getTicker ::
  "env \<Rightarrow> string list \<Rightarrow> ('x, 'd) world \<Rightarrow> ('x thrown + 'd) \<times> ('x, 'd) world" where
  "getTicker e markets w =
     (let marketsParam = join markets '',''
      in case publicClient_get e ''/v1/ticker'' [(''markets'', PString marketsParam)] w of
           (Inr data, w1) \<Rightarrow> (Inr data, w1)
         | (Inl error, w1) \<Rightarrow> (Inl error, w1))"

definition accounts_request :: "env \<Rightarrow> (string \<times> string) list \<Rightarrow> request" where
  "accounts_request e hs =
     (let base = (if USE_PROXY e then PROXY_BASE_URL else API_BASE_URL e)
      in \<lparr>baseURL = None, url = base @ ''/v1/accounts'', params = [], headers = hs\<rparr>)"

definition getAccounts :: "env \<Rightarrow> ('x, 'd) world \<Rightarrow> ('x thrown + 'd) \<times> ('x, 'd) world" where
  "getAccounts e w =
     (case getAuthHeaders e w of
        (Inl error, w1) \<Rightarrow> (Inl (Error accounts_failed_message), w1)
      | (Inr hs, w1) \<Rightarrow>
          (case axios_get (accounts_request e hs) w1 of
             (Inl error, w2) \<Rightarrow> (Inl (Error accounts_failed_message), w2)
           | (Inr data, w2) \<Rightarrow> (Inr data, w2)))"

text \<open>
  A caller of the module makes any of the five calls, one after the other; \<open>run\<close> is the
  world after a sequence of calls, whatever each of them returned.
\<close>

datatype call =
    GetMarkets
  | GetMinuteCandles string "number option" "number option"
  | GetDayCandles string "number option" "string option"
  | GetTicker "string list"
  | GetAccounts

fun perform :: "env \<Rightarrow> call \<Rightarrow> ('x, 'd) world \<Rightarrow> ('x thrown + 'd) \<times> ('x, 'd) world" where
  "perform e GetMarkets w = getMarkets e w"
| "perform e (GetMinuteCandles market unit_arg count_arg) w =
     getMinuteCandles e market unit_arg count_arg w"
| "perform e (GetDayCandles market count_arg convertingPriceUnit) w =
     getDayCandles e market count_arg convertingPriceUnit w"
| "perform e (GetTicker markets) w = getTicker e markets w"
| "perform e GetAccounts w = getAccounts e w"

fun run :: "env \<Rightarrow> call list \<Rightarrow> ('x, 'd) world \<Rightarrow> ('x, 'd) world" where
  "run e [] w = w"
| "run e (c # cs) w = run e cs (snd (perform e c w))"

section \<open>Candle records and chart points\<close>

text \<open>
  Modelled from the spec: the type declarations \<open>MinuteCandle\<close>, \<open>DayCandle\<close> and
  \<open>CandleChartData\<close> of \<open>types/upbit\<close>, which are not among the sources. A candle has a
  timestamp, the open, high, low and close prices and a trade volume; the six fields
  below are the ones the converters read, under the names they read them by, and
  whatever else a minute or a day candle carries is the extension part of the record, a
  parameter. A chart point has the six fields the converters write (\<open>open\<close> is written
  \<open>open'\<close> here).
\<close>

record Candle =
  candle_date_time_kst :: string
  opening_price :: number
  high_price :: number
  low_price :: number
  trade_price :: number
  candle_acc_trade_volume :: number

type_synonym 'm MinuteCandle = "'m Candle_scheme"
type_synonym 'd DayCandle = "'d Candle_scheme"

record CandleChartData =
  time :: string
  open' :: number
  high :: number
  low :: number
  close :: number
  volume :: number

definition convertMinuteCandleToChartData :: "'m MinuteCandle list \<Rightarrow> CandleChartData list" where
  "convertMinuteCandleToChartData candles =
     map (\<lambda>candle. \<lparr>
       time = candle_date_time_kst candle,
       open' = opening_price candle,
       high = high_price candle,
       low = low_price candle,
       close = trade_price candle,
       volume = candle_acc_trade_volume candle\<rparr>) candles"

definition convertDayCandleToChartData :: "'d DayCandle list \<Rightarrow> CandleChartData list" where
  "convertDayCandleToChartData candles =
     map (\<lambda>candle. \<lparr>
       time = candle_date_time_kst candle,
       open' = opening_price candle,
       high = high_price candle,
       low = low_price candle,
       close = trade_price candle,
       volume = candle_acc_trade_volume candle\<rparr>) candles"

section \<open>Formatting\<close>

definition formatPrice :: "number \<Rightarrow> string" where
  "formatPrice price = NumberFormat_format (Math_round price)"

definition formatChangeRate :: "number \<Rightarrow> string" where
  "formatChangeRate rate =
     (if ge rate (number_of 0) then ''+'' else '''') @ toFixed (mul rate (number_of 100)) 2 @ ''%''"

section \<open>Properties of numbers\<close>

declare ilog.simps [simp del]

declare digits.simps [simp del]

declare group_thousands.simps [simp del]

subsection \<open>Bit patterns and values\<close>

lemma magnitude_bits_bounds:
  "0 \<le> magnitude_bits x" "magnitude_bits x < 2 ^ 63"
proof -
  show "0 \<le> magnitude_bits x"
    by (simp add: magnitude_bits_def)
  have "take_bit 63 (uint x) < 2 ^ 63"
    by (rule take_bit_int_less_exp)
  then show "magnitude_bits x < 2 ^ 63"
    by (simp add: magnitude_bits_def unsigned_take_bit_eq)
qed

lemma magnitude_bits_make_number:
  "magnitude_bits (make_number s b) = take_bit 63 b"
  by (simp add: magnitude_bits_def make_number_def unsigned_take_bit_eq
      uint_word_of_int_eq take_bit_push_bit min_def unsigned_or_eq)

lemma magnitude_bits_make_number_id:
  "0 \<le> b \<Longrightarrow> b < 2 ^ 63 \<Longrightarrow> magnitude_bits (make_number s b) = b"
  by (simp add: magnitude_bits_make_number take_bit_int_eq_self)

lemma sign_bit_make_number:
  "sign_bit (make_number s b) = s"
  by (simp add: sign_bit_def make_number_def bit_or_iff bit_take_bit_iff bit_push_bit_iff)

lemma fraction_bounds:
  "0 \<le> fraction x" "fraction x < 2 ^ 52"
  by (simp_all add: fraction_def)

lemma biased_exponent_bounds:
  "0 \<le> biased_exponent x" "biased_exponent x < 2048"
  using magnitude_bits_bounds [of x] by (simp_all add: biased_exponent_def)

lemma magnitude_nonneg: "0 \<le> magnitude x"
  using fraction_bounds(1) [of x] by (simp add: magnitude_def)

lemma magnitude_zero_iff: "magnitude x = 0 \<longleftrightarrow> magnitude_bits x = 0"
proof (cases "biased_exponent x = 0")
  case True
  then have "magnitude_bits x = fraction x"
    using div_mult_mod_eq [of "magnitude_bits x" "2 ^ 52"]
    by (simp add: biased_exponent_def fraction_def)
  with True show ?thesis
    by (simp add: magnitude_def)
next
  case False
  have "magnitude_bits x \<noteq> 0"
    using False by (auto simp add: biased_exponent_def)
  moreover have "0 < (2 ^ 52 + fraction x)"
    using fraction_bounds(1) [of x] by simp
  then have "of_int (2 ^ 52 + fraction x) * 2 powi (biased_exponent x - 1075) \<noteq> (0::rat)"
    by simp
  ultimately show ?thesis
    using False by (simp add: magnitude_def)
qed

lemma magnitude_of_bits:
  assumes bits: "magnitude_bits x = (E + 1074) * 2 ^ 52 + m"
    and E: "- 1074 \<le> E" and m: "0 \<le> m" "m \<le> 2 ^ 53"
    and normal: "- 1074 < E \<Longrightarrow> 2 ^ 52 \<le> m"
  shows "magnitude x = of_int m * 2 powi E"
proof -
  consider (sub) "m < 2 ^ 52" | (norm) "2 ^ 52 \<le> m" "m < 2 ^ 53" | (carry) "m = 2 ^ 53"
    using m by fastforce
  then show ?thesis
  proof cases
    case sub
    with normal E have "E = - 1074"
      by fastforce
    with bits have "magnitude_bits x = m"
      by simp
    with sub m have "biased_exponent x = 0" "fraction x = m"
      by (simp_all add: biased_exponent_def fraction_def)
    with \<open>E = - 1074\<close> show ?thesis
      by (simp add: magnitude_def)
  next
    case norm
    have eq: "magnitude_bits x = 2 ^ 52 * (E + 1075) + (m - 2 ^ 52)"
      using bits by (simp add: algebra_simps)
    have r: "0 \<le> m - 2 ^ 52" "m - 2 ^ 52 < 2 ^ 52"
      using norm by simp_all
    have "biased_exponent x = E + 1075"
      unfolding biased_exponent_def by (rule int_div_pos_eq [OF eq r])
    moreover have "fraction x = m - 2 ^ 52"
      unfolding fraction_def by (rule int_mod_pos_eq [OF eq r])
    ultimately have "biased_exponent x = E + 1075" "fraction x = m - 2 ^ 52"
      by simp_all
    with E show ?thesis
      by (simp add: magnitude_def)
  next
    case carry
    have "magnitude_bits x = (E + 1076) * 2 ^ 52 + 0"
      using bits carry by (simp add: algebra_simps)
    then have "biased_exponent x = E + 1076" "fraction x = 0"
      unfolding biased_exponent_def fraction_def
      by simp_all
    moreover have "(2::rat) powi (E + 1076 - 1075) = 2 * 2 powi E"
      by (simp add: power_int_add)
    ultimately show ?thesis
      using E carry by (simp add: magnitude_def del: power_int_add_numeral power_int_add_numeral2)
  qed
qed

lemma nonfinite_magnitude:
  assumes "\<not> isFinite x"
  shows "2 ^ 1024 \<le> magnitude x"
proof -
  from assms have "2047 * 2 ^ 52 \<le> magnitude_bits x"
    by (simp add: isFinite_def infinity_bits_def)
  then have "2047 \<le> biased_exponent x"
    unfolding biased_exponent_def by simp
  with biased_exponent_bounds(2) [of x] have be: "biased_exponent x = 2047"
    by simp
  have "(2::rat) ^ 52 * 2 ^ 972 \<le> of_int (2 ^ 52 + fraction x) * 2 ^ 972"
    using fraction_bounds(1) [of x] by (intro mult_right_mono) simp_all
  with be show ?thesis
    by (simp add: magnitude_def)
qed

subsection \<open>Logarithms and rounding\<close>

lemma ilog_bounds:
  "2 \<le> b \<Longrightarrow> 1 \<le> n \<Longrightarrow>
     0 \<le> ilog b n \<and> b ^ nat (ilog b n) \<le> n \<and> n < b ^ Suc (nat (ilog b n))"
proof (induction b n rule: ilog.induct)
  case (1 b n)
  show ?case
  proof (cases "n < b")
    case True
    with "1.prems" show ?thesis
      by (simp add: ilog.simps [of b n])
  next
    case False
    with "1.prems" have "1 \<le> n div b"
      using pos_imp_zdiv_pos_iff [of b n] by simp
    with "1.IH" "1.prems" False
    have IH: "0 \<le> ilog b (n div b)" "b ^ nat (ilog b (n div b)) \<le> n div b"
      "n div b < b ^ Suc (nat (ilog b (n div b)))"
      by simp_all
    let ?k = "nat (ilog b (n div b))"
    have eq: "ilog b n = 1 + ilog b (n div b)"
      using False "1.prems" by (simp add: ilog.simps [of b n])
    with IH(1) have k: "nat (ilog b n) = Suc ?k"
      by simp
    have split: "n = b * (n div b) + n mod b"
      by simp
    have rem: "0 \<le> n mod b" "n mod b < b"
      using "1.prems" by simp_all
    have "b * (n div b) \<le> n"
      using split rem(1) by linarith
    moreover have "b * b ^ ?k \<le> b * (n div b)"
      using IH(2) "1.prems" by (simp add: mult_left_mono)
    ultimately have lower: "b ^ Suc ?k \<le> n"
      by simp
    have "n < b * (n div b) + b"
      using split rem(2) by linarith
    then have "n < b * (n div b + 1)"
      by (simp add: algebra_simps)
    moreover have "b * (n div b + 1) \<le> b * b ^ Suc ?k"
      using IH(3) "1.prems" by (intro mult_left_mono) simp_all
    ultimately have upper: "n < b ^ Suc (Suc ?k)"
      by simp
    from eq IH(1) k lower upper show ?thesis
      by simp
  qed
qed

lemma floor_log_bounds:
  assumes q: "0 < q" and b: "2 \<le> b"
  shows "of_int b powi floor_log b q \<le> q"
    and "q < of_int b powi (floor_log b q + 1)"
proof -
  obtain n d where nd: "quotient_of q = (n, d)"
    by (cases "quotient_of q")
  then have d: "0 < d" and qeq: "q = of_int n / of_int d"
    by (simp_all add: quotient_of_denom_pos quotient_of_div)
  with q have n: "0 < n"
    by (simp add: zero_less_divide_iff)
  let ?B = "of_int b :: rat"
  let ?la = "nat (ilog b n)" and ?lb = "nat (ilog b d)"
  have B: "0 < ?B" "?B \<noteq> 0"
    using b by simp_all
  from ilog_bounds [OF b, of n] n
  have la: "0 \<le> ilog b n" "b ^ ?la \<le> n" "n < b ^ Suc ?la"
    by simp_all
  from ilog_bounds [OF b, of d] d
  have lb: "0 \<le> ilog b d" "b ^ ?lb \<le> d" "d < b ^ Suc ?lb"
    by simp_all
  let ?t = "ilog b n - ilog b d"
  have t: "?t = int ?la - int ?lb"
    using la(1) lb(1) by simp
  have pow_t: "?B powi (int i - int j) = ?B ^ i / ?B ^ j" for i j
    using B by (simp add: power_int_diff)
  have nB: "?B ^ ?la \<le> of_int n" "of_int n < ?B ^ Suc ?la"
    using la(2,3) by (metis of_int_le_iff of_int_power, metis of_int_less_iff of_int_power)
  have dB: "?B ^ ?lb \<le> of_int d" "of_int d < ?B ^ Suc ?lb"
    using lb(2,3) by (metis of_int_le_iff of_int_power, metis of_int_less_iff of_int_power)
  have dpos: "(0::rat) < of_int d" and npos: "(0::rat) < of_int n"
    using d n by simp_all
  have Bpow: "0 < ?B ^ k" for k
    using B by simp
  have up: "q < ?B powi (?t + 1)"
  proof -
    have "q < ?B ^ Suc ?la / of_int d"
      unfolding qeq using nB(2) dpos by (simp add: divide_strict_right_mono)
    also have "\<dots> \<le> ?B ^ Suc ?la / ?B ^ ?lb"
      using dB(1) dpos Bpow [of ?lb] Bpow [of "Suc ?la"]
      by (intro divide_left_mono mult_pos_pos) simp_all
    also have "\<dots> = ?B powi (int (Suc ?la) - int ?lb)"
      by (simp only: pow_t)
    also have "int (Suc ?la) - int ?lb = ?t + 1"
      using t by simp
    finally show ?thesis .
  qed
  have low: "?B powi (?t - 1) < q"
  proof -
    have "?B powi (int ?la - int (Suc ?lb)) = ?B ^ ?la / ?B ^ Suc ?lb"
      by (simp only: pow_t)
    also have "\<dots> < ?B ^ ?la / of_int d"
      using dB(2) dpos Bpow [of "Suc ?lb"] Bpow [of ?la]
      by (intro divide_strict_left_mono mult_pos_pos) simp_all
    also have "\<dots> \<le> q"
      unfolding qeq using nB(1) dpos by (simp add: divide_right_mono)
    finally have "?B powi (int ?la - int (Suc ?lb)) < q" .
    moreover have "int ?la - int (Suc ?lb) = ?t - 1"
      using t by simp
    ultimately show ?thesis
      by (simp only:)
  qed
  have fl: "floor_log b q = (if ?B powi ?t \<le> q then ?t else ?t - 1)"
    by (simp add: floor_log_def nd)
  show "of_int b powi floor_log b q \<le> q"
    using low by (simp add: fl)
  show "q < of_int b powi (floor_log b q + 1)"
    using up by (auto simp add: fl not_le)
qed

lemma round_half_even_error:
  "\<bar>of_int (round_half_even r) - r\<bar> \<le> 1 / 2"
proof -
  have "of_int \<lfloor>r\<rfloor> \<le> r" "r < of_int \<lfloor>r\<rfloor> + 1"
    by linarith+
  then show ?thesis
    by (auto simp add: round_half_even_def Let_def)
qed

lemma round_half_even_of_int [simp]:
  "round_half_even (of_int k) = k"
  by (simp add: round_half_even_def)

lemma round_half_even_ge:
  "of_int k \<le> r \<Longrightarrow> k \<le> round_half_even r"
proof -
  assume "of_int k \<le> r"
  then have "k \<le> \<lfloor>r\<rfloor>"
    by (simp add: le_floor_iff)
  then show ?thesis
    by (auto simp add: round_half_even_def Let_def)
qed

lemma round_half_even_le:
  assumes "r \<le> of_int k"
  shows "round_half_even r \<le> k"
proof (cases "r = of_int k")
  case True
  then show ?thesis by simp
next
  case False
  with assms have "r < of_int k"
    by simp
  then have "\<lfloor>r\<rfloor> < k"
    by (simp add: floor_less_iff)
  then show ?thesis
    by (auto simp add: round_half_even_def Let_def)
qed

lemma two_powi_less_cancel:
  assumes "(2::rat) powi a < 2 powi b"
  shows "a < b"
proof (rule ccontr)
  assume "\<not> a < b"
  then have "b \<le> a"
    by simp
  then have "(2::rat) powi b \<le> 2 powi a"
    by (rule power_int_increasing) simp
  with assms show False
    by simp
qed

lemma two_powi_le_cancel:
  assumes "(2::rat) powi a \<le> 2 powi b"
  shows "a \<le> b"
proof (rule ccontr)
  assume "\<not> a \<le> b"
  then have "b < a"
    by simp
  then have "(2::rat) powi b < 2 powi a"
    by (rule power_int_strict_increasing) simp
  with assms show False
    by simp
qed

lemma round_parts:
  fixes q :: rat
  assumes q: "0 < q"
  defines "E \<equiv> max (floor_log 2 q - 52) (- 1074)"
  defines "m \<equiv> round_half_even (q / 2 powi E)"
  shows "round_magnitude q = min ((E + 1074) * 2 ^ 52 + m) infinity_bits"
    and "- 1074 \<le> E" and "floor_log 2 q - 52 \<le> E"
    and "0 \<le> m" and "m \<le> 2 ^ 53" and "- 1074 < E \<Longrightarrow> 2 ^ 52 \<le> m"
    and "\<bar>of_int m * 2 powi E - q\<bar> \<le> 2 powi E / 2"
proof -
  let ?e = "floor_log 2 q"
  have P: "(0::rat) < 2 powi E"
    by simp
  from floor_log_bounds [OF q, of 2]
  have fl: "2 powi ?e \<le> q" "q < 2 powi (?e + 1)"
    by simp_all
  show "round_magnitude q = min ((E + 1074) * 2 ^ 52 + m) infinity_bits"
    using q by (simp add: round_magnitude_def Let_def E_def m_def)
  show E1: "- 1074 \<le> E" and E2: "?e - 52 \<le> E"
    by (simp_all add: E_def)
  have "0 \<le> q / 2 powi E"
    using q by simp
  then have "of_int 0 \<le> q / 2 powi E"
    by simp
  then show "0 \<le> m"
    unfolding m_def by (rule round_half_even_ge)
  have "q / 2 powi E < 2 powi (?e + 1) / 2 powi E"
    using fl(2) P by (simp add: divide_strict_right_mono)
  also have "\<dots> = 2 powi (?e + 1 - E)"
    by (simp add: power_int_diff)
  also have "\<dots> \<le> 2 powi 53"
    using E2 by (intro power_int_increasing) simp_all
  finally have "q / 2 powi E \<le> of_int (2 ^ 53)"
    by simp
  then show "m \<le> 2 ^ 53"
    unfolding m_def by (rule round_half_even_le)
  show "2 ^ 52 \<le> m" if "- 1074 < E"
  proof -
    from that have E: "E = ?e - 52"
      by (simp add: E_def max_def split: if_splits)
    have "(2::rat) powi 52 = 2 powi (?e - E)"
      by (simp add: E)
    also have "\<dots> = 2 powi ?e / 2 powi E"
      by (simp add: power_int_diff)
    also have "\<dots> \<le> q / 2 powi E"
      using fl(1) P by (simp add: divide_right_mono)
    finally have "of_int (2 ^ 52) \<le> q / 2 powi E"
      by simp
    then show ?thesis
      unfolding m_def by (rule round_half_even_ge)
  qed
  have "\<bar>of_int m - q / 2 powi E\<bar> \<le> 1 / 2"
    unfolding m_def by (rule round_half_even_error)
  then have "\<bar>of_int m - q / 2 powi E\<bar> * 2 powi E \<le> 1 / 2 * 2 powi E"
    using P by (intro mult_right_mono) simp_all
  moreover have "\<bar>of_int m - q / 2 powi E\<bar> * 2 powi E = \<bar>of_int m * 2 powi E - q\<bar>"
  proof -
    have "\<bar>of_int m - q / 2 powi E\<bar> * 2 powi E = \<bar>(of_int m - q / 2 powi E) * 2 powi E\<bar>"
      using P by (simp add: abs_mult)
    also have "(of_int m - q / 2 powi E) * 2 powi E = of_int m * 2 powi E - q"
      using P by (simp add: field_simps)
    finally show ?thesis .
  qed
  ultimately show "\<bar>of_int m * 2 powi E - q\<bar> \<le> 2 powi E / 2"
    by simp
qed

lemma round_magnitude_bounds:
  "0 \<le> round_magnitude q" "round_magnitude q \<le> infinity_bits" "round_magnitude q < 2 ^ 63"
proof -
  have inf: "0 \<le> infinity_bits" "infinity_bits < 2 ^ 63"
    by (simp_all add: infinity_bits_def)
  show "0 \<le> round_magnitude q"
  proof (cases "0 < q")
    case True
    define E where "E = max (floor_log 2 q - 52) (- 1074)"
    note parts = round_parts [OF True, folded E_def]
    have "0 \<le> (E + 1074) * 2 ^ 52"
      using parts(2) by simp
    from this parts(4) have "0 \<le> (E + 1074) * 2 ^ 52 + round_half_even (q / 2 powi E)"
      by (rule add_nonneg_nonneg)
    with inf(1) show ?thesis
      unfolding parts(1) by simp
  next
    case False
    then show ?thesis
      by (simp add: round_magnitude_def)
  qed
  show le: "round_magnitude q \<le> infinity_bits"
  proof (cases "0 < q")
    case True
    from round_parts(1) [OF True] show ?thesis
      by simp
  next
    case False
    then show ?thesis
      using inf(1) by (simp add: round_magnitude_def)
  qed
  with inf(2) show "round_magnitude q < 2 ^ 63"
    by simp
qed

lemma magnitude_bits_round [simp]:
  "magnitude_bits (make_number s (round_magnitude q)) = round_magnitude q"
  by (rule magnitude_bits_make_number_id) (rule round_magnitude_bounds)+

lemma magnitude_round:
  fixes q :: rat
  assumes q: "0 < q" and fin: "round_magnitude q < infinity_bits"
  defines "E \<equiv> max (floor_log 2 q - 52) (- 1074)"
  shows "magnitude (make_number s (round_magnitude q)) =
      of_int (round_half_even (q / 2 powi E)) * 2 powi E"
proof -
  note parts = round_parts [OF q, folded E_def]
  from parts(1) fin
  have "round_magnitude q = (E + 1074) * 2 ^ 52 + round_half_even (q / 2 powi E)"
    by (simp add: min_def split: if_splits)
  then have "magnitude_bits (make_number s (round_magnitude q)) =
      (E + 1074) * 2 ^ 52 + round_half_even (q / 2 powi E)"
    by (metis magnitude_bits_round)
  then show ?thesis
    using parts(2,4,5,6) by (rule magnitude_of_bits)
qed

lemma round_magnitude_pos:
  assumes "2 powi (- 1074) \<le> q"
  shows "0 < round_magnitude q"
proof -
  have "(0::rat) < 2 powi (- 1074)"
    by simp
  with assms have q: "0 < q"
    by linarith
  define E where "E = max (floor_log 2 q - 52) (- 1074)"
  note parts = round_parts [OF q, folded E_def]
  have "0 < (E + 1074) * 2 ^ 52 + round_half_even (q / 2 powi E)"
  proof (cases "E = - 1074")
    case True
    have "of_int 1 \<le> q / 2 powi (- 1074)"
      using assms by (simp add: le_divide_eq)
    then have "1 \<le> round_half_even (q / 2 powi (- 1074))"
      by (rule round_half_even_ge)
    with True show ?thesis
      by simp
  next
    case False
    with parts(2) have "- 1074 < E"
      by simp
    with parts(6) have "2 ^ 52 \<le> round_half_even (q / 2 powi E)"
      by simp
    moreover have "(0::int) < 2 ^ 52"
      by simp
    ultimately have "0 < round_half_even (q / 2 powi E)"
      by (rule less_le_trans [rotated])
    moreover have "0 \<le> (E + 1074) * 2 ^ 52"
      using parts(2) by simp
    ultimately show ?thesis
      by (rule add_nonneg_pos [rotated])
  qed
  with parts(1) show ?thesis
    by (simp add: infinity_bits_def)
qed

lemma isFinite_imp_not_isNaN: "isFinite x \<Longrightarrow> \<not> isNaN x"
  by (simp add: isFinite_def isNaN_def)

lemma round_magnitude_int:
  assumes N: "1 \<le> N" "N < 2 ^ 53"
  shows "round_magnitude (of_int N) < infinity_bits"
    and "magnitude (make_number s (round_magnitude (of_int N))) = of_int N"
proof -
  let ?q = "of_int N :: rat"
  have q: "0 < ?q"
    using N by simp
  define E where "E = max (floor_log 2 ?q - 52) (- 1074)"
  note parts = round_parts [OF q, folded E_def]
  from floor_log_bounds [OF q, of 2]
  have fl: "2 powi floor_log 2 ?q \<le> ?q" "?q < 2 powi (floor_log 2 ?q + 1)"
    by simp_all
  have "?q < 2 powi 53"
    using N(2) by (metis of_int_less_iff of_int_numeral of_int_power power_int_numeral)
  with fl(1) have "(2::rat) powi floor_log 2 ?q < 2 powi 53"
    by (rule le_less_trans)
  then have "floor_log 2 ?q < 53"
    by (rule two_powi_less_cancel)
  moreover have "(2::rat) powi 0 \<le> ?q"
    using N by simp
  from this fl(2) have "(2::rat) powi 0 < 2 powi (floor_log 2 ?q + 1)"
    by (rule le_less_trans)
  then have "0 < floor_log 2 ?q + 1"
    by (rule two_powi_less_cancel)
  ultimately have E: "E = floor_log 2 ?q - 52" "E \<le> 0" "- 52 \<le> E"
    by (simp_all add: E_def)
  then have "?q / 2 powi E = of_int (N * 2 ^ nat (- E))"
    by (simp add: power_int_def field_simps)
  then have m: "round_half_even (?q / 2 powi E) = N * 2 ^ nat (- E)"
    by (simp only: round_half_even_of_int)
  have "(E + 1074) * 2 ^ 52 + round_half_even (?q / 2 powi E) \<le> 1074 * 2 ^ 52 + 2 ^ 53"
    using E(2) parts(5) by (intro add_mono mult_right_mono) simp_all
  also have "\<dots> < infinity_bits"
    by (simp add: infinity_bits_def)
  finally show fin: "round_magnitude ?q < infinity_bits"
    using parts(1) by simp
  have "magnitude (make_number s (round_magnitude ?q)) =
      of_int (round_half_even (?q / 2 powi E)) * 2 powi E"
    unfolding E_def by (rule magnitude_round [OF q fin])
  also have "\<dots> = of_int (N * 2 ^ nat (- E)) * 2 powi E"
    by (simp only: m)
  also have "\<dots> = ?q"
    using E by (simp add: power_int_def field_simps)
  finally show "magnitude (make_number s (round_magnitude ?q)) = ?q" .
qed

subsection \<open>Digits, grids of representable values, products with 100\<close>

lemma digits_one: "n < 10 \<Longrightarrow> digits n = [digit n]"
  by (simp add: digits.simps [of n])

lemma digits_step: "10 \<le> n \<Longrightarrow> digits n = digits (n div 10) @ [digit (n mod 10)]"
  by (simp add: digits.simps [of n])

lemma digits_two:
  assumes "10 \<le> n" "n < 100"
  shows "digits n = [digit (n div 10), digit (n mod 10)]"
proof -
  from assms have "n div 10 < 10"
    by simp
  with assms show ?thesis
    by (simp add: digits_step digits_one)
qed

lemma digits_split:
  assumes "100 \<le> n"
  shows "digits n = digits (n div 100) @ [digit (n div 10 mod 10), digit (n mod 10)]"
proof -
  from assms have "10 \<le> n" "10 \<le> n div 10"
    by simp_all
  moreover have "n div 10 div 10 = n div 100"
    by (simp add: zdiv_zmult2_eq [symmetric])
  ultimately show ?thesis
    by (simp add: digits_step [of n] digits_step [of "n div 10"])
qed

lemma digits_nonempty [simp]: "digits n \<noteq> []"
  by (cases "n < 10") (simp_all add: digits_one digits_step)

lemma digit_0: "digit 0 = CHR ''0''"
  by code_simp

lemma toFixed_2:
  assumes fin: "isFinite x" and small: "\<bar>real_value x\<bar> < 10 ^ 21"
  shows "toFixed x 2 =
     (if real_value x < 0 then ''-'' else '''') @
     digits (\<lfloor>\<bar>real_value x\<bar> * 100 + 1 / 2\<rfloor> div 100) @ ''.'' @
     [digit (\<lfloor>\<bar>real_value x\<bar> * 100 + 1 / 2\<rfloor> div 10 mod 10),
      digit (\<lfloor>\<bar>real_value x\<bar> * 100 + 1 / 2\<rfloor> mod 10)]"
proof -
  define n where "n = \<lfloor>\<bar>real_value x\<bar> * 100 + 1 / 2\<rfloor>"
  have n0: "0 \<le> n"
    unfolding n_def by simp
  define s where "s = (if real_value x < 0 then ''-'' else '''')"
  have unfold: "toFixed x 2 =
      (let m = (if n = 0 then ''0'' else digits n); k = length m;
           m = (if k \<le> 2 then replicate (3 - k) CHR ''0'' @ m else m);
           k = (if k \<le> 2 then 3 else k)
       in s @ take (k - 2) m @ ''.'' @ drop (k - 2) m)"
    using fin small by (simp add: toFixed_def Let_def n_def s_def not_le)
  consider (one) "n < 10" | (two) "10 \<le> n" "n < 100" | (more) "100 \<le> n"
    by fastforce
  then have "toFixed x 2 = s @ digits (n div 100) @ ''.'' @ [digit (n div 10 mod 10), digit (n mod 10)]"
  proof cases
    case one
    with n0 have "n div 100 = 0" "n div 10 = 0" "n mod 10 = n"
      by simp_all
    with one n0 show ?thesis
      by (auto simp add: unfold digits_one digit_0 numeral_3_eq_3)
  next
    case two
    then have "n div 100 = 0" "n div 10 mod 10 = n div 10" "n \<noteq> 0"
      by simp_all
    with two show ?thesis
      by (simp add: unfold digits_two digits_one digit_0)
  next
    case more
    then have "n \<noteq> 0"
      by simp
    have len: "length (digits n) = length (digits (n div 100)) + 2"
      by (simp add: digits_split [OF more])
    with more \<open>n \<noteq> 0\<close> show ?thesis
      by (simp add: unfold Let_def) (simp add: digits_split [OF more])
  qed
  then show ?thesis
    by (simp only: n_def s_def)
qed

lemma magnitude_ge_min:
  assumes "magnitude_bits x \<noteq> 0"
  shows "2 powi (- 1074) \<le> magnitude x"
proof (cases "biased_exponent x = 0")
  case True
  then have "magnitude_bits x = fraction x"
    using div_mult_mod_eq [of "magnitude_bits x" "2 ^ 52"]
    by (simp add: biased_exponent_def fraction_def)
  with assms fraction_bounds(1) [of x] have "1 \<le> fraction x"
    by simp
  then have "(1::rat) \<le> of_int (fraction x)"
    by simp
  then have "1 * 2 powi (- 1074) \<le> of_int (fraction x) * (2::rat) powi (- 1074)"
    by (rule mult_right_mono) simp
  with True show ?thesis
    by (simp add: magnitude_def)
next
  case False
  with biased_exponent_bounds(1) [of x] have be: "1 \<le> biased_exponent x"
    by simp
  have "(1::rat) \<le> of_int (2 ^ 52 + fraction x)"
    using fraction_bounds(1) [of x] by simp
  moreover have "(2::rat) powi (- 1074) \<le> 2 powi (biased_exponent x - 1075)"
    using be by (intro power_int_increasing) simp_all
  ultimately have "1 * 2 powi (- 1074) \<le>
      of_int (2 ^ 52 + fraction x) * (2::rat) powi (biased_exponent x - 1075)"
    using fraction_bounds(1) [of x] by (intro mult_mono) simp_all
  with False show ?thesis
    by (simp add: magnitude_def)
qed

lemma magnitude_grid:
  "magnitude x < 2 powi (g + 52) \<or> (\<exists>M. magnitude x = of_int M * 2 powi g)"
proof -
  define qe where "qe = (if biased_exponent x = 0 then - 1074 else biased_exponent x - 1075)"
  define mant where "mant = (if biased_exponent x = 0 then fraction x else 2 ^ 52 + fraction x)"
  have mag: "magnitude x = of_int mant * 2 powi qe"
    by (simp add: magnitude_def qe_def mant_def)
  have mant: "0 \<le> mant" "mant < 2 ^ 53"
    using fraction_bounds [of x] by (simp_all add: mant_def)
  show ?thesis
  proof (cases "g \<le> qe")
    case True
    then have "(2::rat) powi qe = 2 powi (qe - g) * 2 powi g"
      by (simp flip: power_int_add)
    also have "(2::rat) powi (qe - g) = of_int (2 ^ nat (qe - g))"
      using True by (simp add: power_int_def)
    finally have "magnitude x = of_int (mant * 2 ^ nat (qe - g)) * 2 powi g"
      by (simp add: mag)
    then show ?thesis
      by blast
  next
    case False
    then have "qe \<le> g - 1"
      by simp
    then have "(2::rat) powi qe \<le> 2 powi (g - 1)"
      by (intro power_int_increasing) simp_all
    moreover have "(of_int mant :: rat) < 2 ^ 53"
      using mant(2) by (metis of_int_less_iff of_int_numeral of_int_power)
    ultimately have "of_int mant * (2::rat) powi qe < 2 ^ 53 * 2 powi (g - 1)"
      using mant(1) by (intro mult_less_le_imp_less) simp_all
    also have "(2::rat) ^ 53 * 2 powi (g - 1) = 2 powi (g + 52)"
    proof -
      have "(2::rat) powi (g + 52) = 2 powi (g - 1 + 53)"
        by (simp add: algebra_simps)
      also have "\<dots> = 2 powi (g - 1) * 2 powi 53"
        by (subst power_int_add) simp_all
      finally show ?thesis
        by simp
    qed
    finally show ?thesis
      by (simp add: mag)
  qed
qed

lemma round_upper:
  fixes q Q :: rat
  assumes q: "0 < q" "q \<le> Q" and Q: "Q < 2 powi (g + 53)" and g: "- 1074 \<le> g" "g \<le> 900"
  shows "round_magnitude q < infinity_bits"
    and "magnitude (make_number s (round_magnitude q)) \<le> Q + 2 powi g / 2"
proof -
  define E where "E = max (floor_log 2 q - 52) (- 1074)"
  note parts = round_parts [OF q(1), folded E_def]
  from floor_log_bounds(1) [OF q(1), of 2] have "2 powi floor_log 2 q \<le> q"
    by simp
  with q(2) Q have "(2::rat) powi floor_log 2 q < 2 powi (g + 53)"
    by linarith
  then have "floor_log 2 q < g + 53"
    by (rule two_powi_less_cancel)
  with g(1) have Eg: "E \<le> g"
    by (simp add: E_def)
  have "(E + 1074) * 2 ^ 52 + round_half_even (q / 2 powi E) \<le> (900 + 1074) * 2 ^ 52 + 2 ^ 53"
    using Eg g(2) parts(5) by (intro add_mono mult_right_mono) simp_all
  also have "\<dots> < infinity_bits"
    by (simp add: infinity_bits_def)
  finally show fin: "round_magnitude q < infinity_bits"
    using parts(1) by simp
  have "magnitude (make_number s (round_magnitude q)) =
      of_int (round_half_even (q / 2 powi E)) * 2 powi E"
    unfolding E_def by (rule magnitude_round [OF q(1) fin])
  moreover have "(2::rat) powi E \<le> 2 powi g"
    using Eg by (intro power_int_increasing) simp_all
  moreover have "of_int (round_half_even (q / 2 powi E)) * 2 powi E - q \<le> 2 powi E / 2"
    using parts(7) by linarith
  ultimately show "magnitude (make_number s (round_magnitude q)) \<le> Q + 2 powi g / 2"
    using q(2) by linarith
qed

lemma hundred:
  "magnitude (number_of 100) = 100" "sign_bit (number_of 100) = False"
  "isFinite (number_of 100) = True" "isNaN (number_of 100) = False"
  by code_simp+

lemma zero:
  "order_key (number_of 0) = 0" "isNaN (number_of 0) = False"
  by code_simp+

lemma abs_real_value: "\<bar>real_value x\<bar> = magnitude x"
  using magnitude_nonneg [of x] by (simp add: real_value_def)

lemma real_value_neg_iff: "real_value x < 0 \<longleftrightarrow> sign_bit x \<and> magnitude_bits x \<noteq> 0"
  using magnitude_nonneg [of x] magnitude_zero_iff [of x]
  by (auto simp add: real_value_def)

lemma ge_zero:
  assumes "\<not> isNaN x"
  shows "ge x (number_of 0) \<longleftrightarrow> 0 \<le> real_value x"
proof -
  have "ge x (number_of 0) \<longleftrightarrow> 0 \<le> order_key x"
    using assms by (simp add: ge_def zero)
  also have "\<dots> \<longleftrightarrow> \<not> (sign_bit x \<and> magnitude_bits x \<noteq> 0)"
    using magnitude_bits_bounds(1) [of x] by (auto simp add: order_key_def)
  finally show ?thesis
    by (simp add: real_value_neg_iff [symmetric] not_less)
qed

lemma mul_hundred:
  assumes "isFinite rate"
  shows "mul rate (number_of 100) =
     make_number (sign_bit rate) (round_magnitude (magnitude rate * 100))"
  using assms by (simp add: mul_def hundred isFinite_imp_not_isNaN)

lemma magnitude_bits_make_number_zero [simp]:
  "magnitude_bits (make_number s 0) = 0"
  by (simp add: magnitude_bits_make_number_id)

lemma isFinite_make_number:
  "0 \<le> b \<Longrightarrow> b < infinity_bits \<Longrightarrow> isFinite (make_number s b)"
  by (simp add: isFinite_def magnitude_bits_make_number_id infinity_bits_def)

lemma product_sign:
  assumes "isFinite rate"
  shows "real_value (mul rate (number_of 100)) < 0 \<longleftrightarrow> real_value rate < 0"
proof (cases "magnitude_bits rate = 0")
  case True
  then have "magnitude rate = 0"
    by (simp add: magnitude_zero_iff)
  then have "magnitude_bits (mul rate (number_of 100)) = 0"
    by (simp add: mul_hundred [OF assms] round_magnitude_def)
  with True show ?thesis
    by (simp add: real_value_neg_iff)
next
  case False
  then have "2 powi (- 1074) \<le> magnitude rate"
    by (rule magnitude_ge_min)
  then have "2 powi (- 1074) \<le> magnitude rate * 100"
    using magnitude_nonneg [of rate] by linarith
  then have "0 < round_magnitude (magnitude rate * 100)"
    by (rule round_magnitude_pos)
  then have "magnitude_bits (mul rate (number_of 100)) \<noteq> 0"
    by (simp add: mul_hundred [OF assms])
  with False show ?thesis
    by (simp add: real_value_neg_iff mul_hundred [OF assms] sign_bit_make_number)
qed

lemma product_below:
  fixes Q :: rat
  assumes fin: "isFinite rate"
    and q: "magnitude rate * 100 \<le> Q" and Q: "Q < 2 powi (g + 53)"
    and g: "- 1074 \<le> g" "g \<le> 900"
  shows "isFinite (mul rate (number_of 100))"
    and "magnitude (mul rate (number_of 100)) \<le> Q + 2 powi g / 2"
proof -
  let ?q = "magnitude rate * 100"
  have x: "mul rate (number_of 100) = make_number (sign_bit rate) (round_magnitude ?q)"
    by (rule mul_hundred [OF fin])
  have Q0: "0 \<le> Q"
    using q magnitude_nonneg [of rate] by linarith
  have fin_mag: "round_magnitude ?q < infinity_bits
      \<and> magnitude (make_number (sign_bit rate) (round_magnitude ?q)) \<le> Q + 2 powi g / 2"
  proof (cases "0 < ?q")
    case True
    from round_upper [OF True q Q g] show ?thesis
      by simp
  next
    case False
    then have r0: "round_magnitude ?q = 0"
      by (simp add: round_magnitude_def)
    have "magnitude_bits (make_number (sign_bit rate) 0) = 0"
      by (simp add: magnitude_bits_make_number_id)
    then have "magnitude (make_number (sign_bit rate) 0) = 0"
      by (simp add: magnitude_zero_iff)
    moreover have "(0::rat) \<le> 2 powi g / 2"
      by simp
    ultimately show ?thesis
      using Q0 by (simp add: r0 infinity_bits_def)
  qed
  then show "isFinite (mul rate (number_of 100))"
    unfolding x by (intro isFinite_make_number round_magnitude_bounds) simp
  from fin_mag show "magnitude (mul rate (number_of 100)) \<le> Q + 2 powi g / 2"
    unfolding x by simp
qed

lemma grid_below:
  fixes T :: rat
  assumes below: "magnitude x < T"
    and low: "(2::rat) powi (g + 52) \<le> of_int K * 2 powi g"
    and T: "T \<le> of_int (K + 1) * 2 powi g"
  shows "magnitude x \<le> of_int K * 2 powi g"
proof -
  from magnitude_grid [of x g] show ?thesis
  proof
    assume "magnitude x < 2 powi (g + 52)"
    with low show ?thesis
      by linarith
  next
    assume "\<exists>M. magnitude x = of_int M * 2 powi g"
    then obtain M where M: "magnitude x = of_int M * 2 powi g"
      by blast
    have P: "(0::rat) < 2 powi g"
      by simp
    from below T M have "of_int M * (2::rat) powi g < of_int (K + 1) * 2 powi g"
      by linarith
    with P have "(of_int M :: rat) < of_int (K + 1)"
      by (simp only: mult_less_cancel_right_pos)
    then have "M \<le> K"
      by simp
    then have "(of_int M :: rat) \<le> of_int K"
      by simp
    with P have "of_int M * (2::rat) powi g \<le> of_int K * 2 powi g"
      by (simp only: mult_le_cancel_right_pos)
    with M show ?thesis
      by simp
  qed
qed

section \<open>Properties of the exchange client\<close>

subsection \<open>Failures of the private operation\<close>

lemma getAuthHeaders_missing:
  "falsy (ACCESS_KEY e) \<or> falsy (SECRET_KEY e) \<Longrightarrow>
     getAuthHeaders e w = (Inl (Error keys_not_set_message), w)"
  by (simp add: getAuthHeaders_def)

lemma getAuthHeaders_configured:
  assumes "\<not> falsy (ACCESS_KEY e)" and "\<not> falsy (SECRET_KEY e)"
  shows "getAuthHeaders e w =
     (case sign w ''HS256'' \<lparr>access_key = string_of (ACCESS_KEY e), nonce = uuids w (uuid_calls w)\<rparr>
             (string_of (SECRET_KEY e)) of
        Inl err \<Rightarrow> Inl err
      | Inr token \<Rightarrow>
          Inr [(''Authorization'', ''Bearer '' @ token), (''Accept'', ''application/json'')],
      w\<lparr>uuid_calls := Suc (uuid_calls w),
        signed_claims := signed_claims w @
          [\<lparr>access_key = string_of (ACCESS_KEY e), nonce = uuids w (uuid_calls w)\<rparr>]\<rparr>)"
  using assms
  by (simp add: getAuthHeaders_def uuidv4_def generateJWT_def SignJWT_sign_def
      split: sum.split)

lemma getAccounts_cases:
  "fst (getAccounts e w) = Inl (Error accounts_failed_message) \<or>
   (\<exists>d. fst (getAccounts e w) = Inr d)"
  by (simp add: getAccounts_def split: prod.split sum.split)

text \<open>
  C1. Whenever \<open>getAccounts\<close> fails, the value thrown is the one \<open>Error\<close> with the fixed
  account message, whatever the cause was: missing credentials, a signer that throws, or
  a transport that throws. What the collaborator threw is not part of the result.
\<close>

theorem getAccounts_generic_error:
  "(\<forall>err. fst (getAccounts e w) = Inl err \<longrightarrow> err = Error accounts_failed_message)
   \<and> (falsy (ACCESS_KEY e) \<or> falsy (SECRET_KEY e) \<longrightarrow>
        fst (getAccounts e w) = Inl (Error accounts_failed_message))
   \<and> (\<forall>err. \<not> falsy (ACCESS_KEY e) \<and> \<not> falsy (SECRET_KEY e)
          \<and> sign w ''HS256''
               \<lparr>access_key = string_of (ACCESS_KEY e), nonce = uuids w (uuid_calls w)\<rparr>
               (string_of (SECRET_KEY e)) = Inl err \<longrightarrow>
        fst (getAccounts e w) = Inl (Error accounts_failed_message))
   \<and> (\<forall>token err. \<not> falsy (ACCESS_KEY e) \<and> \<not> falsy (SECRET_KEY e)
          \<and> sign w ''HS256''
               \<lparr>access_key = string_of (ACCESS_KEY e), nonce = uuids w (uuid_calls w)\<rparr>
               (string_of (SECRET_KEY e)) = Inr token
          \<and> transport w (requests w)
               (accounts_request e
                  [(''Authorization'', ''Bearer '' @ token), (''Accept'', ''application/json'')])
             = Inl err \<longrightarrow>
        fst (getAccounts e w) = Inl (Error accounts_failed_message))"
proof (intro conjI allI impI)
  fix err
  assume "fst (getAccounts e w) = Inl err"
  with getAccounts_cases [of e w] show "err = Error accounts_failed_message"
    by auto
next
  assume "falsy (ACCESS_KEY e) \<or> falsy (SECRET_KEY e)"
  then show "fst (getAccounts e w) = Inl (Error accounts_failed_message)"
    by (simp add: getAccounts_def getAuthHeaders_missing)
next
  fix err
  assume "\<not> falsy (ACCESS_KEY e) \<and> \<not> falsy (SECRET_KEY e)
          \<and> sign w ''HS256''
               \<lparr>access_key = string_of (ACCESS_KEY e), nonce = uuids w (uuid_calls w)\<rparr>
               (string_of (SECRET_KEY e)) = Inl err"
  then show "fst (getAccounts e w) = Inl (Error accounts_failed_message)"
    by (simp add: getAccounts_def getAuthHeaders_configured)
next
  fix token err
  assume "\<not> falsy (ACCESS_KEY e) \<and> \<not> falsy (SECRET_KEY e)
          \<and> sign w ''HS256''
               \<lparr>access_key = string_of (ACCESS_KEY e), nonce = uuids w (uuid_calls w)\<rparr>
               (string_of (SECRET_KEY e)) = Inr token
          \<and> transport w (requests w)
               (accounts_request e
                  [(''Authorization'', ''Bearer '' @ token), (''Accept'', ''application/json'')])
             = Inl err"
  then show "fst (getAccounts e w) = Inl (Error accounts_failed_message)"
    by (simp add: getAccounts_def getAuthHeaders_configured axios_get_def)
qed

theorem getAccounts_generic_error_witness:
  "fst (getAccounts
      \<lparr>VITE_UPBIT_API_URL = None, VITE_UPBIT_ACCESS_KEY = Some ''ak'',
        VITE_UPBIT_SECRET_KEY = Some ''sk'', DEV = False\<rparr>
      \<lparr>transport = (\<lambda>log req. Inl (Foreign (503::nat))), requests = [],
        uuids = (\<lambda>n. replicate (Suc n) CHR ''u''), uuid_calls = 0,
        sign = (\<lambda>alg payload secret. Inr (nonce payload @ ''.'' @ secret)), signed_claims = []\<rparr>
      :: (nat thrown + string) \<times> (nat, string) world)
   = Inl (Error accounts_failed_message)"
proof -
  let ?e = "\<lparr>VITE_UPBIT_API_URL = None, VITE_UPBIT_ACCESS_KEY = Some ''ak'',
        VITE_UPBIT_SECRET_KEY = Some ''sk'', DEV = False\<rparr>"
  let ?w = "\<lparr>transport = (\<lambda>log req. Inl (Foreign (503::nat))), requests = [],
        uuids = (\<lambda>n. replicate (Suc n) CHR ''u''), uuid_calls = 0,
        sign = (\<lambda>alg payload secret. Inr (nonce payload @ ''.'' @ secret)), signed_claims = []\<rparr>
      :: (nat, string) world"
  have keys: "\<not> falsy (ACCESS_KEY ?e) \<and> \<not> falsy (SECRET_KEY ?e)"
    by (simp add: falsy_def ACCESS_KEY_def SECRET_KEY_def)
  from getAccounts_generic_error [of ?e ?w]
  have "\<forall>token err. \<not> falsy (ACCESS_KEY ?e) \<and> \<not> falsy (SECRET_KEY ?e)
          \<and> sign ?w ''HS256''
               \<lparr>access_key = string_of (ACCESS_KEY ?e), nonce = uuids ?w (uuid_calls ?w)\<rparr>
               (string_of (SECRET_KEY ?e)) = Inr token
          \<and> transport ?w (requests ?w)
               (accounts_request ?e
                  [(''Authorization'', ''Bearer '' @ token), (''Accept'', ''application/json'')])
             = Inl err \<longrightarrow>
        fst (getAccounts ?e ?w) = Inl (Error accounts_failed_message)"
    by blast
  from this [rule_format, of "''u.sk''" "Foreign 503"] keys show ?thesis
    by (simp add: string_of_def SECRET_KEY_def)
qed

text \<open>
  C2. With the access key or the secret key not configured, \<open>getAccounts\<close> fails with
  the account error and leaves the world as it was: no request is sent (and no nonce is
  drawn, nothing is signed). The four public operations do not look at the credentials:
  replacing them by any others changes neither the result nor the requests sent.
\<close>

theorem missing_credentials_no_request:
  "(falsy (ACCESS_KEY e) \<or> falsy (SECRET_KEY e) \<longrightarrow>
      getAccounts e w = (Inl (Error accounts_failed_message), w)
      \<and> requests (snd (getAccounts e w)) = requests w)
   \<and> getMarkets (e\<lparr>VITE_UPBIT_ACCESS_KEY := a, VITE_UPBIT_SECRET_KEY := s\<rparr>) w = getMarkets e w
   \<and> getMinuteCandles (e\<lparr>VITE_UPBIT_ACCESS_KEY := a, VITE_UPBIT_SECRET_KEY := s\<rparr>)
        market unit_arg count_arg w
       = getMinuteCandles e market unit_arg count_arg w
   \<and> getDayCandles (e\<lparr>VITE_UPBIT_ACCESS_KEY := a, VITE_UPBIT_SECRET_KEY := s\<rparr>)
        market count_arg convertingPriceUnit w
       = getDayCandles e market count_arg convertingPriceUnit w
   \<and> getTicker (e\<lparr>VITE_UPBIT_ACCESS_KEY := a, VITE_UPBIT_SECRET_KEY := s\<rparr>) markets w
       = getTicker e markets w"
proof -
  have req: "publicClient_request (e\<lparr>VITE_UPBIT_ACCESS_KEY := a, VITE_UPBIT_SECRET_KEY := s\<rparr>)
      path ps = publicClient_request e path ps" for path ps
    by (simp add: publicClient_request_def USE_PROXY_def API_BASE_URL_def)
  have get: "publicClient_get (e\<lparr>VITE_UPBIT_ACCESS_KEY := a, VITE_UPBIT_SECRET_KEY := s\<rparr>)
      path ps w = publicClient_get e path ps w" for path ps
    by (simp add: publicClient_get_def req)
  have "falsy (ACCESS_KEY e) \<or> falsy (SECRET_KEY e) \<Longrightarrow>
      getAccounts e w = (Inl (Error accounts_failed_message), w)"
    by (simp add: getAccounts_def getAuthHeaders_missing)
  then show ?thesis
    by (auto simp add: getMarkets_def getMinuteCandles_def getDayCandles_def getTicker_def get)
qed

theorem missing_credentials_no_request_witness:
  "requests (snd (getAccounts
      \<lparr>VITE_UPBIT_API_URL = None, VITE_UPBIT_ACCESS_KEY = Some ''ak'',
        VITE_UPBIT_SECRET_KEY = None, DEV = False\<rparr>
      \<lparr>transport = (\<lambda>log req. Inr ''[]''), requests = [],
        uuids = (\<lambda>n. replicate (Suc n) CHR ''u''), uuid_calls = 0,
        sign = (\<lambda>alg payload secret. Inr (nonce payload @ ''.'' @ secret)), signed_claims = []\<rparr>
      :: (nat thrown + string) \<times> (nat, string) world)) = []"
proof -
  let ?e = "\<lparr>VITE_UPBIT_API_URL = None, VITE_UPBIT_ACCESS_KEY = Some ''ak'',
        VITE_UPBIT_SECRET_KEY = None, DEV = False\<rparr>"
  let ?w = "\<lparr>transport = (\<lambda>log req. Inr ''[]''), requests = [],
        uuids = (\<lambda>n. replicate (Suc n) CHR ''u''), uuid_calls = 0,
        sign = (\<lambda>alg payload secret. Inr (nonce payload @ ''.'' @ secret)), signed_claims = []\<rparr>
      :: (nat, string) world"
  have missing: "falsy (ACCESS_KEY ?e) \<or> falsy (SECRET_KEY ?e)"
    by (simp add: falsy_def SECRET_KEY_def)
  from missing_credentials_no_request [of ?e ?w] missing
  have "requests (snd (getAccounts ?e ?w)) = requests ?w"
    by blast
  then show ?thesis
    by simp
qed

subsection \<open>The ticker request\<close>

lemma join_from_comma:
  "join_from k R xs '','' =
     (if xs = [] then R else (if 0 < k then R @ '','' else R) @ comma_separated xs)"
proof (induction xs arbitrary: k R)
  case Nil
  show ?case by simp
next
  case (Cons x rest)
  have "join_from k R (x # rest) '','' =
      join_from (Suc k) ((if 0 < k then R @ '','' else R) @ x) rest '',''"
    by simp
  also have "\<dots> = (if rest = [] then (if 0 < k then R @ '','' else R) @ x
      else ((if 0 < k then R @ '','' else R) @ x) @ '','' @ comma_separated rest)"
    by (simp add: Cons.IH)
  also have "\<dots> = (if 0 < k then R @ '','' else R) @ comma_separated (x # rest)"
    by (cases rest) simp_all
  finally show ?case
    by simp
qed

lemma join_comma: "join xs '','' = comma_separated xs"
  by (simp add: join_def join_from_comma)

text \<open>
  C3. For every list of market codes, \<open>getTicker\<close> adds exactly one request to the log:
  a GET of \<open>/v1/ticker\<close> through the public client whose only query parameter is
  \<open>markets\<close>, the comma-separated list of the codes in order. For the codes \<open>A\<close> and \<open>B\<close>
  the value is \<open>A,B\<close>.
\<close>

theorem getTicker_one_request:
  "requests (snd (getTicker e markets w)) =
     requests w @
       [\<lparr>baseURL = Some (if USE_PROXY e then PROXY_BASE_URL else API_BASE_URL e),
         url = ''/v1/ticker'',
         params = [(''markets'', PString (comma_separated markets))],
         headers = [(''Accept'', ''application/json'')]\<rparr>]
   \<and> params (last (requests (snd (getTicker e [''A'', ''B''] w)))) =
       [(''markets'', PString ''A,B'')]"
  by (simp add: getTicker_def publicClient_get_def publicClient_request_def axios_get_def
      join_comma Let_def split: sum.split)

subsection \<open>Failures of the public operations\<close>

lemma publicClient_get_result:
  "fst (publicClient_get e path ps w) = transport w (requests w) (publicClient_request e path ps)"
  and publicClient_get_world:
  "snd (publicClient_get e path ps w) = w\<lparr>requests := requests w @ [publicClient_request e path ps]\<rparr>"
  by (simp_all add: publicClient_get_def axios_get_def)

lemma getTicker_publicClient_get:
  "getTicker e markets w =
     publicClient_get e ''/v1/ticker'' [(''markets'', PString (join markets '',''))] w"
  by (simp add: getTicker_def Let_def split: prod.split sum.split)

text \<open>
  C6. When the transport throws on the request a public operation sends, the operation
  fails with that very value: \<open>getMarkets\<close>, \<open>getMinuteCandles\<close>, \<open>getDayCandles\<close> and
  \<open>getTicker\<close> neither wrap nor replace it.
\<close>

theorem public_errors_propagate:
  "(transport w (requests w) (last (requests (snd (getMarkets e w)))) = Inl err \<longrightarrow>
      fst (getMarkets e w) = Inl err)
   \<and> (transport w (requests w)
         (last (requests (snd (getMinuteCandles e market unit_arg count_arg w)))) = Inl err \<longrightarrow>
      fst (getMinuteCandles e market unit_arg count_arg w) = Inl err)
   \<and> (transport w (requests w)
         (last (requests (snd (getDayCandles e market count_arg convertingPriceUnit w)))) = Inl err \<longrightarrow>
      fst (getDayCandles e market count_arg convertingPriceUnit w) = Inl err)
   \<and> (transport w (requests w) (last (requests (snd (getTicker e markets w)))) = Inl err \<longrightarrow>
      fst (getTicker e markets w) = Inl err)"
  by (simp add: getMarkets_def getMinuteCandles_def getDayCandles_def
      getTicker_publicClient_get publicClient_get_result publicClient_get_world Let_def)

theorem public_errors_propagate_witness:
  "fst (getTicker
      \<lparr>VITE_UPBIT_API_URL = None, VITE_UPBIT_ACCESS_KEY = None,
        VITE_UPBIT_SECRET_KEY = None, DEV = True\<rparr>
      [''KRW-BTC'', ''KRW-ETH'']
      \<lparr>transport = (\<lambda>log req. if url req = ''/v1/ticker'' then Inl (Foreign (429::nat))
                                 else Inr ''[]''),
        requests = [],
        uuids = (\<lambda>n. replicate (Suc n) CHR ''u''), uuid_calls = 0,
        sign = (\<lambda>alg payload secret. Inr (nonce payload @ ''.'' @ secret)), signed_claims = []\<rparr>
      :: (nat thrown + string) \<times> (nat, string) world)
   = Inl (Foreign 429)"
proof -
  let ?e = "\<lparr>VITE_UPBIT_API_URL = None, VITE_UPBIT_ACCESS_KEY = None,
        VITE_UPBIT_SECRET_KEY = None, DEV = True\<rparr>"
  let ?w = "\<lparr>transport = (\<lambda>log req. if url req = ''/v1/ticker'' then Inl (Foreign (429::nat))
                                 else Inr ''[]''),
        requests = [],
        uuids = (\<lambda>n. replicate (Suc n) CHR ''u''), uuid_calls = 0,
        sign = (\<lambda>alg payload secret. Inr (nonce payload @ ''.'' @ secret)), signed_claims = []\<rparr>
      :: (nat, string) world"
  have "transport ?w (requests ?w)
      (last (requests (snd (getTicker ?e [''KRW-BTC'', ''KRW-ETH''] ?w)))) = Inl (Foreign 429)"
    by (simp add: getTicker_publicClient_get publicClient_get_world publicClient_request_def)
  with public_errors_propagate
    [where w = ?w and e = ?e and err = "Foreign 429" and markets = "[''KRW-BTC'', ''KRW-ETH'']"]
  show ?thesis
    by blast
qed

subsection \<open>Nonces\<close>

lemma perform_public_world:
  "c \<noteq> GetAccounts \<Longrightarrow>
     uuids (snd (perform e c w)) = uuids w
     \<and> uuid_calls (snd (perform e c w)) = uuid_calls w
     \<and> signed_claims (snd (perform e c w)) = signed_claims w"
  by (cases c)
    (simp_all add: getMarkets_def getMinuteCandles_def getDayCandles_def
      getTicker_publicClient_get publicClient_get_world Let_def)

lemma getAccounts_world:
  "uuids (snd (getAccounts e w)) = uuids w
   \<and> (if falsy (ACCESS_KEY e) \<or> falsy (SECRET_KEY e)
      then uuid_calls (snd (getAccounts e w)) = uuid_calls w
         \<and> signed_claims (snd (getAccounts e w)) = signed_claims w
      else uuid_calls (snd (getAccounts e w)) = Suc (uuid_calls w)
         \<and> signed_claims (snd (getAccounts e w)) =
             signed_claims w @
               [\<lparr>access_key = string_of (ACCESS_KEY e), nonce = uuids w (uuid_calls w)\<rparr>])"
proof (cases "falsy (ACCESS_KEY e) \<or> falsy (SECRET_KEY e)")
  case True
  then show ?thesis
    by (simp add: getAccounts_def getAuthHeaders_missing)
next
  case False
  then show ?thesis
    by (simp add: getAccounts_def getAuthHeaders_configured axios_get_def
        split: sum.split)
qed

lemma perform_nonces:
  "uuids (snd (perform e c w)) = uuids w
   \<and> uuid_calls w \<le> uuid_calls (snd (perform e c w))
   \<and> map nonce (signed_claims (snd (perform e c w))) =
       map nonce (signed_claims w) @ map (uuids w) [uuid_calls w..<uuid_calls (snd (perform e c w))]"
proof (cases "c = GetAccounts")
  case True
  with getAccounts_world [of e w] show ?thesis
    by (simp split: if_splits)
next
  case False
  from perform_public_world [OF this, of e w] show ?thesis
    by simp
qed

lemma run_nonces:
  "uuids (run e cs w) = uuids w
   \<and> uuid_calls w \<le> uuid_calls (run e cs w)
   \<and> map nonce (signed_claims (run e cs w)) =
       map nonce (signed_claims w) @ map (uuids w) [uuid_calls w..<uuid_calls (run e cs w)]"
proof (induction cs arbitrary: w)
  case Nil
  show ?case by simp
next
  case (Cons c cs)
  let ?w1 = "snd (perform e c w)"
  note step = perform_nonces [of e c w]
  note rest = Cons.IH [of ?w1]
  have "[uuid_calls w..<uuid_calls (run e cs ?w1)] =
      [uuid_calls w..<uuid_calls ?w1] @ [uuid_calls ?w1..<uuid_calls (run e cs ?w1)]"
    using step rest by (metis upt_add_eq_append le_Suc_ex)
  with step rest show ?case
    by simp
qed

text \<open>
  C7. With credentials configured, every run of \<open>getAuthHeaders\<close> draws one new value
  from \<open>uuidv4\<close>, signs the claim set made of the configured access key and that value,
  and returns the token the signer produced for it as the bearer credential. Over any
  sequence of calls of the module, the nonces signed are the values drawn during the
  sequence, in order, each once. Given that \<open>uuidv4\<close> never repeats a value, the nonces
  of any two invocations differ; nothing is kept from one invocation to the next.
\<close>

theorem nonces_fresh:
  assumes "inj (uuids w)"
  shows "(\<not> falsy (ACCESS_KEY e) \<and> \<not> falsy (SECRET_KEY e) \<longrightarrow>
            signed_claims (snd (getAuthHeaders e w)) =
              signed_claims w @ [\<lparr>access_key = string_of (ACCESS_KEY e), nonce = uuids w (uuid_calls w)\<rparr>]
          \<and> uuid_calls (snd (getAuthHeaders e w)) = Suc (uuid_calls w)
          \<and> (\<forall>hs. fst (getAuthHeaders e w) = Inr hs \<longrightarrow>
               (\<exists>token. sign w ''HS256''
                    \<lparr>access_key = string_of (ACCESS_KEY e), nonce = uuids w (uuid_calls w)\<rparr>
                    (string_of (SECRET_KEY e)) = Inr token
                  \<and> hs = [(''Authorization'', ''Bearer '' @ token),
                          (''Accept'', ''application/json'')])))
       \<and> map nonce (signed_claims (run e cs w)) =
           map nonce (signed_claims w) @ map (uuids w) [uuid_calls w..<uuid_calls (run e cs w)]
       \<and> (signed_claims w = [] \<longrightarrow> distinct (map nonce (signed_claims (run e cs w))))"
proof (intro conjI impI)
  assume keys: "\<not> falsy (ACCESS_KEY e) \<and> \<not> falsy (SECRET_KEY e)"
  then show "signed_claims (snd (getAuthHeaders e w)) =
      signed_claims w @ [\<lparr>access_key = string_of (ACCESS_KEY e), nonce = uuids w (uuid_calls w)\<rparr>]"
    by (simp add: getAuthHeaders_configured)
  from keys show "uuid_calls (snd (getAuthHeaders e w)) = Suc (uuid_calls w)"
    by (simp add: getAuthHeaders_configured)
  from keys show "\<forall>hs. fst (getAuthHeaders e w) = Inr hs \<longrightarrow>
               (\<exists>token. sign w ''HS256''
                    \<lparr>access_key = string_of (ACCESS_KEY e), nonce = uuids w (uuid_calls w)\<rparr>
                    (string_of (SECRET_KEY e)) = Inr token
                  \<and> hs = [(''Authorization'', ''Bearer '' @ token),
                          (''Accept'', ''application/json'')])"
    by (auto simp add: getAuthHeaders_configured split: sum.splits)
next
  show "map nonce (signed_claims (run e cs w)) =
      map nonce (signed_claims w) @ map (uuids w) [uuid_calls w..<uuid_calls (run e cs w)]"
    by (simp add: run_nonces)
next
  assume "signed_claims w = []"
  then have "map nonce (signed_claims (run e cs w)) =
      map (uuids w) [uuid_calls w..<uuid_calls (run e cs w)]"
    by (simp add: run_nonces)
  moreover from assms have "inj_on (uuids w) (set [uuid_calls w..<uuid_calls (run e cs w)])"
    by (rule inj_on_subset) simp
  ultimately show "distinct (map nonce (signed_claims (run e cs w)))"
    by (simp add: distinct_map)
qed

theorem nonces_fresh_witness:
  "map nonce (signed_claims (run
      \<lparr>VITE_UPBIT_API_URL = None, VITE_UPBIT_ACCESS_KEY = Some ''ak'',
        VITE_UPBIT_SECRET_KEY = Some ''sk'', DEV = False\<rparr>
      [GetAccounts, GetTicker [''KRW-BTC''], GetAccounts]
      (\<lparr>transport = (\<lambda>log req. Inr ''[]''), requests = [],
        uuids = (\<lambda>n. replicate (Suc n) CHR ''u''), uuid_calls = 0,
        sign = (\<lambda>alg payload secret. Inr (nonce payload @ ''.'' @ secret)), signed_claims = []\<rparr>
      :: (nat, string) world))) = [''u'', ''uu'']
   \<and> distinct [''u'', ''uu'']"
proof -
  let ?e = "\<lparr>VITE_UPBIT_API_URL = None, VITE_UPBIT_ACCESS_KEY = Some ''ak'',
        VITE_UPBIT_SECRET_KEY = Some ''sk'', DEV = False\<rparr>"
  let ?w = "\<lparr>transport = (\<lambda>log req. Inr ''[]''), requests = [],
        uuids = (\<lambda>n. replicate (Suc n) CHR ''u''), uuid_calls = 0,
        sign = (\<lambda>alg payload secret. Inr (nonce payload @ ''.'' @ secret)), signed_claims = []\<rparr>
      :: (nat, string) world"
  let ?cs = "[GetAccounts, GetTicker [''KRW-BTC''], GetAccounts]"
  have keys: "\<not> falsy (ACCESS_KEY ?e)" "\<not> falsy (SECRET_KEY ?e)"
    by (simp_all add: falsy_def ACCESS_KEY_def SECRET_KEY_def)
  have "inj (uuids ?w)"
    by (simp add: inj_def)
  note fresh = nonces_fresh [OF this, of ?e ?cs, THEN conjunct2]
  have eq: "map nonce (signed_claims (run ?e ?cs ?w)) =
      map nonce (signed_claims ?w) @ map (uuids ?w) [uuid_calls ?w..<uuid_calls (run ?e ?cs ?w)]"
    by (rule fresh [THEN conjunct1])
  have dist: "distinct (map nonce (signed_claims (run ?e ?cs ?w)))"
    by (rule fresh [THEN conjunct2, rule_format]) simp
  have calls: "uuid_calls (run ?e ?cs ?w) = 2"
    by (simp add: getAccounts_def getAuthHeaders_configured [OF keys] axios_get_def
        getTicker_publicClient_get publicClient_get_world accounts_request_def)
  have "[0..<2] = [0, Suc 0]"
    by (simp add: upt_rec)
  with eq calls have "map nonce (signed_claims (run ?e ?cs ?w)) = [''u'', ''uu'']"
    by simp
  with dist show ?thesis
    by simp
qed

section \<open>Candle conversion\<close>

text \<open>
  C4. Both converters return one chart point per candle, in the order of the input, and
  the point at index \<open>i\<close> carries the KST timestamp, the opening, high and low prices,
  the trade price as close price and the accumulated trade volume of candle \<open>i\<close>.
\<close>

theorem toChartData_pointwise:
  fixes ms :: "'m MinuteCandle list" and ds :: "'d DayCandle list"
  shows "length (convertMinuteCandleToChartData ms) = length ms
       \<and> length (convertDayCandleToChartData ds) = length ds
       \<and> (\<forall>i < length ms.
            time (convertMinuteCandleToChartData ms ! i) = candle_date_time_kst (ms ! i)
          \<and> open' (convertMinuteCandleToChartData ms ! i) = opening_price (ms ! i)
          \<and> high (convertMinuteCandleToChartData ms ! i) = high_price (ms ! i)
          \<and> low (convertMinuteCandleToChartData ms ! i) = low_price (ms ! i)
          \<and> close (convertMinuteCandleToChartData ms ! i) = trade_price (ms ! i)
          \<and> volume (convertMinuteCandleToChartData ms ! i) = candle_acc_trade_volume (ms ! i))
       \<and> (\<forall>i < length ds.
            time (convertDayCandleToChartData ds ! i) = candle_date_time_kst (ds ! i)
          \<and> open' (convertDayCandleToChartData ds ! i) = opening_price (ds ! i)
          \<and> high (convertDayCandleToChartData ds ! i) = high_price (ds ! i)
          \<and> low (convertDayCandleToChartData ds ! i) = low_price (ds ! i)
          \<and> close (convertDayCandleToChartData ds ! i) = trade_price (ds ! i)
          \<and> volume (convertDayCandleToChartData ds ! i) = candle_acc_trade_volume (ds ! i))"
  by (simp add: convertMinuteCandleToChartData_def convertDayCandleToChartData_def)

theorem toChartData_pointwise_witness:
  "close (convertMinuteCandleToChartData
      [\<lparr>candle_date_time_kst = ''2024-01-01T09:00:00'', opening_price = number_of 1,
        high_price = number_of 4, low_price = number_of 0, trade_price = number_of 3,
        candle_acc_trade_volume = number_of 7\<rparr>,
       \<lparr>candle_date_time_kst = ''2024-01-01T09:01:00'', opening_price = number_of 3,
        high_price = number_of 9, low_price = number_of 2, trade_price = number_of 8,
        candle_acc_trade_volume = number_of 5\<rparr>] ! 1) = number_of 8
   \<and> time (convertDayCandleToChartData
      [\<lparr>candle_date_time_kst = ''2024-01-01T09:00:00'', opening_price = number_of 1,
        high_price = number_of 4, low_price = number_of 0, trade_price = number_of 3,
        candle_acc_trade_volume = number_of 7\<rparr>] ! 0)
     = ''2024-01-01T09:00:00''"
proof -
  let ?c0 = "\<lparr>candle_date_time_kst = ''2024-01-01T09:00:00'', opening_price = number_of 1,
        high_price = number_of 4, low_price = number_of 0, trade_price = number_of 3,
        candle_acc_trade_volume = number_of 7\<rparr>"
  let ?c1 = "\<lparr>candle_date_time_kst = ''2024-01-01T09:01:00'', opening_price = number_of 3,
        high_price = number_of 9, low_price = number_of 2, trade_price = number_of 8,
        candle_acc_trade_volume = number_of 5\<rparr>"
  from toChartData_pointwise [of "[?c0, ?c1]" "[?c0]"]
  have "close (convertMinuteCandleToChartData [?c0, ?c1] ! 1) = trade_price ([?c0, ?c1] ! 1)"
    and "time (convertDayCandleToChartData [?c0] ! 0) = candle_date_time_kst ([?c0] ! 0)"
    by simp_all
  then show ?thesis
    by simp
qed

text \<open>
  C9. The two converters compute the same function: candle lists that agree on the six
  shared fields, whatever else their records carry, are converted to the same chart
  points.
\<close>

theorem converters_agree:
  fixes ms :: "'m MinuteCandle list" and ds :: "'d DayCandle list"
  assumes "map Candle.truncate ms = map Candle.truncate ds"
  shows "convertMinuteCandleToChartData ms = convertDayCandleToChartData ds"
proof -
  have "convertMinuteCandleToChartData ms
      = convertMinuteCandleToChartData (map Candle.truncate ms)"
    by (simp add: convertMinuteCandleToChartData_def Candle.truncate_def comp_def)
  moreover have "convertDayCandleToChartData ds
      = convertMinuteCandleToChartData (map Candle.truncate ds)"
    by (simp add: convertMinuteCandleToChartData_def convertDayCandleToChartData_def
        Candle.truncate_def comp_def)
  ultimately show ?thesis
    using assms by simp
qed

theorem converters_agree_witness:
  "convertMinuteCandleToChartData
     [\<lparr>candle_date_time_kst = ''2024-01-01T09:00:00'', opening_price = number_of 1,
       high_price = number_of 4, low_price = number_of 0, trade_price = number_of 3,
       candle_acc_trade_volume = number_of 7, \<dots> = (5::nat)\<rparr>]
   = convertDayCandleToChartData
     [\<lparr>candle_date_time_kst = ''2024-01-01T09:00:00'', opening_price = number_of 1,
       high_price = number_of 4, low_price = number_of 0, trade_price = number_of 3,
       candle_acc_trade_volume = number_of 7, \<dots> = ''KRW''\<rparr>]"
  by (rule converters_agree) (simp add: Candle.truncate_def)

section \<open>Properties of the formatters\<close>

subsection \<open>Change rates\<close>

text \<open>
  C10. The sign shown by \<open>formatChangeRate\<close> is that of the rate, not that of the rounded
  figure: for every rate with \<open>-0.00005 < rate < 0\<close> the result is \<open>-0.00%\<close>. The product
  with 100 is negative, never a zero, and stays below 0.005 in magnitude, so \<open>toFixed\<close>
  writes \<open>-0.00\<close>.
\<close>

theorem formatChangeRate_negative_rounding_to_zero:
  assumes neg: "real_value rate < 0" and small: "- (5 / 100000) < real_value rate"
  shows "formatChangeRate rate = ''-0.00%''"
proof -
  let ?x = "mul rate (number_of 100)"
  from neg have sign: "sign_bit rate" and nz: "magnitude_bits rate \<noteq> 0"
    by (simp_all add: real_value_neg_iff)
  from sign small have a: "magnitude rate < 5 / 100000"
    by (simp add: real_value_def)
  have fin: "isFinite rate"
  proof (rule ccontr)
    assume "\<not> isFinite rate"
    then have "2 ^ 1024 \<le> magnitude rate"
      by (rule nonfinite_magnitude)
    with a show False
      by simp
  qed
  have "magnitude rate \<le> of_int 7378697629483820 * 2 powi (- 67)"
    using a by (rule grid_below) simp_all
  then have q: "magnitude rate * 100 \<le> 737869762948382000 / 2 ^ 67"
    by simp
  have Q: "(737869762948382000 / 2 ^ 67 :: rat) < 2 powi (- 60 + 53)"
    by simp
  from product_below [OF fin q Q]
  have xfin: "isFinite ?x" and "magnitude ?x \<le> 737869762948382000 / 2 ^ 67 + 2 powi (- 60) / 2"
    by simp_all
  then have xsmall: "magnitude ?x < 5 / 1000"
    by simp
  have xneg: "real_value ?x < 0"
    using neg by (simp add: product_sign [OF fin])
  have "\<lfloor>magnitude ?x * 100 + 1 / 2\<rfloor> = 0"
    using xsmall magnitude_nonneg [of ?x] by (simp add: floor_eq_iff)
  moreover have "magnitude ?x < 10 ^ 21"
    using xsmall by simp
  ultimately have "toFixed ?x 2 = ''-0.00''"
    using xneg by (simp add: toFixed_2 [OF xfin] abs_real_value digits_one digit_0)
  moreover have "\<not> ge rate (number_of 0)"
    using neg by (simp add: ge_zero [OF isFinite_imp_not_isNaN [OF fin]])
  ultimately show ?thesis
    by (simp add: formatChangeRate_def)
qed

theorem formatChangeRate_negative_rounding_to_zero_witness:
  "real_value (number_of (- 1 / 100000)) < 0
   \<and> - (5 / 100000) < real_value (number_of (- 1 / 100000))
   \<and> formatChangeRate (number_of (- 1 / 100000)) = ''-0.00%''"
proof -
  have neg: "real_value (number_of (- 1 / 100000)) < 0"
    by code_simp
  have small: "- (5 / 100000) < real_value (number_of (- 1 / 100000))"
    by code_simp
  from neg small formatChangeRate_negative_rounding_to_zero [OF neg small]
  show ?thesis
    by (intro conjI)
qed

lemma rate_product_range:
  assumes fin: "isFinite rate" and small: "\<bar>real_value rate\<bar> < 10 ^ 19"
  shows "isFinite (mul rate (number_of 100))"
    and "\<bar>real_value (mul rate (number_of 100))\<bar> < 10 ^ 21"
proof -
  let ?x = "mul rate (number_of 100)"
  from small have a: "magnitude rate < 10 ^ 19"
    by (simp add: abs_real_value)
  have "magnitude rate \<le> of_int 4882812499999999 * 2 powi 11"
    using a by (rule grid_below) simp_all
  then have q: "magnitude rate * 100 \<le> 10 ^ 21 - 204800"
    by simp
  have Q: "(10 ^ 21 - 204800 :: rat) < 2 powi (17 + 53)"
    by simp
  from product_below [OF fin q Q]
  show "isFinite ?x" and "\<bar>real_value ?x\<bar> < 10 ^ 21"
    by (simp_all add: abs_real_value)
qed

text \<open>
  C5, as amended. For every finite rate of magnitude below \<open>10^19\<close>, \<open>formatChangeRate\<close>
  returns a sign, \<open>+\<close> exactly when the rate is not negative and \<open>-\<close> otherwise, then
  the hundredths \<open>n\<close> nearest to the magnitude of the product \<open>rate * 100\<close> (a tie going
  up) written as the integer part \<open>n div 100\<close>, a point and exactly two decimals, then \<open>%\<close>.
  \<open>formatChangeRate(0.0523)\<close> is \<open>+5.23%\<close> and \<open>formatChangeRate(-0.01)\<close> is \<open>-1.00%\<close>.
\<close>

theorem formatChangeRate_two_decimals:
  assumes fin: "isFinite rate" and small: "\<bar>real_value rate\<bar> < 10 ^ 19"
  shows "(let n = \<lfloor>\<bar>real_value (mul rate (number_of 100))\<bar> * 100 + 1 / 2\<rfloor>
          in formatChangeRate rate =
               (if 0 \<le> real_value rate then ''+'' else ''-'') @
               digits (n div 100) @ ''.'' @ [digit (n div 10 mod 10), digit (n mod 10)] @ ''%'')
       \<and> formatChangeRate (number_of (523 / 10000)) = ''+5.23%''
       \<and> formatChangeRate (number_of (- 1 / 100)) = ''-1.00%''"
proof (intro conjI)
  let ?x = "mul rate (number_of 100)"
  note range = rate_product_range [OF fin small]
  have sign: "real_value ?x < 0 \<longleftrightarrow> \<not> 0 \<le> real_value rate"
    by (simp add: product_sign [OF fin] not_le)
  have "ge rate (number_of 0) \<longleftrightarrow> 0 \<le> real_value rate"
    by (rule ge_zero [OF isFinite_imp_not_isNaN [OF fin]])
  then show "let n = \<lfloor>\<bar>real_value ?x\<bar> * 100 + 1 / 2\<rfloor>
      in formatChangeRate rate =
           (if 0 \<le> real_value rate then ''+'' else ''-'') @
           digits (n div 100) @ ''.'' @ [digit (n div 10 mod 10), digit (n mod 10)] @ ''%''"
    by (simp add: formatChangeRate_def toFixed_2 [OF range] sign Let_def)
next
  show "formatChangeRate (number_of (523 / 10000)) = ''+5.23%''"
    by code_simp
next
  show "formatChangeRate (number_of (- 1 / 100)) = ''-1.00%''"
    by code_simp
qed

theorem formatChangeRate_two_decimals_witness:
  "isFinite (number_of (1 / 3))
   \<and> \<bar>real_value (number_of (1 / 3))\<bar> < 10 ^ 19
   \<and> formatChangeRate (number_of (1 / 3)) = ''+33.33%''"
proof -
  have fin: "isFinite (number_of (1 / 3))"
    by code_simp
  have small: "\<bar>real_value (number_of (1 / 3))\<bar> < 10 ^ 19"
    by code_simp
  have n: "\<lfloor>\<bar>real_value (mul (number_of (1 / 3)) (number_of 100))\<bar> * 100 + 1 / 2\<rfloor> = 3333"
    by code_simp
  have pos: "0 \<le> real_value (number_of (1 / 3))"
    by code_simp
  have ds: "digits 33 = ''33''" "digit 3 = CHR ''3''"
    by code_simp+
  from formatChangeRate_two_decimals [OF fin small]
  have "formatChangeRate (number_of (1 / 3)) = ''+33.33%''"
    by (simp add: n pos ds Let_def)
  with fin small show ?thesis
    by (intro conjI)
qed

text \<open>
  The claim as stated, for every rate, fails: NaN is written \<open>NaN%\<close>, and from a product
  of \<open>10^21\<close> on \<open>toFixed\<close> returns the exponent notation of \<open>Number::toString\<close>.
\<close>

theorem formatChangeRate_not_two_decimals:
  "formatChangeRate NaN = ''NaN%''
   \<and> formatChangeRate (number_of (10 ^ 19)) = ''+1e+21%''"
  by code_simp

subsection \<open>Prices\<close>

lemma floor_half [simp]: "\<lfloor>1 / 2 :: rat\<rfloor> = 0"
  by (simp add: floor_eq_iff)

lemma NumberFormat_integer:
  assumes fin: "isFinite y" and mag: "magnitude y = of_int N" and N: "0 \<le> N" "N < 2 ^ 53"
  shows "NumberFormat_format y = (if sign_bit y then ''-'' else '''') @ group_thousands (digits N)"
proof -
  have "(of_int N :: rat) < 2 ^ 53"
    using N(2) by (metis of_int_less_iff of_int_numeral of_int_power)
  moreover have "\<lfloor>(of_int N :: rat) * 1000 + 1 / 2\<rfloor> = N * 1000"
  proof -
    have "\<lfloor>1 / 2 + of_int (N * 1000) :: rat\<rfloor> = \<lfloor>1 / 2 :: rat\<rfloor> + N * 1000"
      by (rule floor_add_int [symmetric])
    moreover have "(of_int N :: rat) * 1000 + 1 / 2 = 1 / 2 + of_int (N * 1000)"
      by simp
    ultimately show ?thesis
      by (simp only: floor_half)
  qed
  ultimately show ?thesis
    using fin by (simp add: NumberFormat_format_def mag isFinite_imp_not_isNaN Let_def)
qed

lemma Math_round_finite:
  assumes fin: "isFinite price" and small: "\<bar>real_value price\<bar> < 2 ^ 53"
  shows "isFinite (Math_round price)"
    and "sign_bit (Math_round price) = sign_bit price"
    and "magnitude (Math_round price) = of_int \<bar>\<lfloor>real_value price + 1 / 2\<rfloor>\<bar>"
    and "\<bar>\<lfloor>real_value price + 1 / 2\<rfloor>\<bar> < 2 ^ 53"
proof -
  define n where "n = \<lfloor>real_value price + 1 / 2\<rfloor>"
  from small have "magnitude price < 2 ^ 53"
    by (simp add: abs_real_value)
  then have "magnitude price \<le> of_int (2 ^ 53 - 1) * 2 powi 0"
    by (rule grid_below) simp_all
  then have bound: "\<bar>real_value price\<bar> \<le> 2 ^ 53 - 1"
    by (simp add: abs_real_value)
  have "real_value price + 1 / 2 < of_int (2 ^ 53)"
    using bound by (simp add: abs_le_iff)
  then have up: "n < 2 ^ 53"
    unfolding n_def by (simp only: floor_less_iff)
  have "of_int (- (2 ^ 53 - 1)) \<le> real_value price + 1 / 2"
    using bound by (simp add: abs_le_iff)
  then have low: "- (2 ^ 53 - 1) \<le> n"
    unfolding n_def by (simp only: le_floor_iff)
  from up low show n: "\<bar>n\<bar> < 2 ^ 53"
    by simp
  have sgn_neg: "sign_bit price" if "n < 0"
  proof -
    from that have "real_value price + 1 / 2 < of_int 0"
      unfolding n_def by (simp only: floor_less_iff)
    then have "real_value price < 0"
      by simp
    then show ?thesis
      by (simp add: real_value_neg_iff)
  qed
  have sgn_pos: "\<not> sign_bit price" if "0 < n"
  proof
    assume "sign_bit price"
    then have "real_value price \<le> 0"
      using magnitude_nonneg [of price] by (simp add: real_value_def)
    then have "real_value price + 1 / 2 < of_int 1"
      by simp
    then have "n < 1"
      unfolding n_def by (simp only: floor_less_iff)
    with that show False
      by simp
  qed
  consider (zero) "magnitude_bits price = 0" | (tiny) "magnitude_bits price \<noteq> 0" "n = 0"
    | (int) "magnitude_bits price \<noteq> 0" "n \<noteq> 0"
    by blast
  then have "isFinite (Math_round price) \<and> sign_bit (Math_round price) = sign_bit price
      \<and> magnitude (Math_round price) = of_int \<bar>n\<bar>"
  proof cases
    case zero
    then have "magnitude price = 0"
      by (simp add: magnitude_zero_iff)
    then have "n = 0"
      by (simp add: n_def real_value_def)
    with zero fin \<open>magnitude price = 0\<close> show ?thesis
      by (simp add: Math_round_def)
  next
    case tiny
    then have "Math_round price = make_number (sign_bit price) 0"
      using fin by (simp add: Math_round_def n_def)
    moreover have "magnitude (make_number (sign_bit price) 0) = 0"
      by (simp add: magnitude_zero_iff)
    ultimately show ?thesis
      using tiny by (simp add: sign_bit_make_number isFinite_make_number infinity_bits_def)
  next
    case int
    then have mr: "Math_round price = make_number (n < 0) (round_magnitude (of_int \<bar>n\<bar>))"
      using fin by (simp add: Math_round_def n_def [symmetric] number_of_def Let_def)
    from int(2) n have N: "1 \<le> \<bar>n\<bar>" "\<bar>n\<bar> < 2 ^ 53"
      by simp_all
    note exact = round_magnitude_int [OF N]
    have "sign_bit price \<longleftrightarrow> n < 0"
      using sgn_neg sgn_pos int(2) by fastforce
    with exact show ?thesis
      by (simp add: mr sign_bit_make_number isFinite_make_number round_magnitude_bounds)
  qed
  then show "isFinite (Math_round price)"
    and "sign_bit (Math_round price) = sign_bit price"
    and "magnitude (Math_round price) = of_int \<bar>\<lfloor>real_value price + 1 / 2\<rfloor>\<bar>"
    by (simp_all add: n_def)
qed

text \<open>
  C8, as amended. For every finite amount of magnitude below \<open>2^53\<close>, \<open>formatPrice\<close>
  returns the integer nearest to the amount (a tie going up), written with its digits in
  groups of three separated by commas, after a minus sign when the amount is negative or
  negative zero. \<open>formatPrice(1234567.6)\<close> is \<open>1,234,568\<close>.
\<close>

theorem formatPrice_grouped_integer:
  assumes fin: "isFinite price" and small: "\<bar>real_value price\<bar> < 2 ^ 53"
  shows "formatPrice price =
           (if sign_bit price then ''-'' else '''') @
           group_thousands (digits \<bar>\<lfloor>real_value price + 1 / 2\<rfloor>\<bar>)
       \<and> formatPrice (number_of (12345676 / 10)) = ''1,234,568''"
proof
  note r = Math_round_finite [OF fin small]
  have "NumberFormat_format (Math_round price) =
      (if sign_bit (Math_round price) then ''-'' else '''') @
      group_thousands (digits \<bar>\<lfloor>real_value price + 1 / 2\<rfloor>\<bar>)"
    using r(1,3) _ r(4) by (rule NumberFormat_integer) simp
  then show "formatPrice price =
      (if sign_bit price then ''-'' else '''') @
      group_thousands (digits \<bar>\<lfloor>real_value price + 1 / 2\<rfloor>\<bar>)"
    by (simp add: formatPrice_def r(2))
next
  show "formatPrice (number_of (12345676 / 10)) = ''1,234,568''"
    by code_simp
qed

theorem formatPrice_grouped_integer_witness:
  "isFinite (number_of (- (2 / 5)))
   \<and> \<bar>real_value (number_of (- (2 / 5)))\<bar> < 2 ^ 53
   \<and> formatPrice (number_of (- (2 / 5))) = ''-0''"
proof -
  have fin: "isFinite (number_of (- (2 / 5)))"
    by code_simp
  have small: "\<bar>real_value (number_of (- (2 / 5)))\<bar> < 2 ^ 53"
    by code_simp
  have n: "\<bar>\<lfloor>real_value (number_of (- (2 / 5))) + 1 / 2\<rfloor>\<bar> = 0"
    by code_simp
  have s: "sign_bit (number_of (- (2 / 5)))"
    by code_simp
  have g: "group_thousands (digits 0) = ''0''"
    by code_simp
  from formatPrice_grouped_integer [OF fin small]
  have "formatPrice (number_of (- (2 / 5))) = ''-0''"
    by (simp add: n s g)
  with fin small show ?thesis
    by (intro conjI)
qed

text \<open>
  The claim as stated, for every amount, fails: NaN and the infinities are not written
  as integers, and for an integer that binary64 holds only approximately the digits are
  those of the shortest decimal naming the number, not those of the integer (\<open>2^64\<close> is
  18446744073709551616).
\<close>

theorem formatPrice_not_an_integer:
  "formatPrice NaN = ''NaN''
   \<and> formatPrice (make_number False infinity_bits) = [CHR 0xE2, CHR 0x88, CHR 0x9E]
   \<and> formatPrice (number_of (2 ^ 64)) = ''18,446,744,073,709,552,000''"
  by code_simp

end
